theory Spec2Isabelle
  imports Main "HOL-Library.AList"
begin

section \<open>Python values\<close>

text \<open>
  The service is written in Python (\<^verbatim>\<open>application.py\<close>). Records fetched from the
  upstream page parser and the bodies of the translation providers are JSON-like Python
  values; dictionaries keep their insertion order, so an object is an association list.
  Numbers are restricted to integers. A character of the model is a HOL \<open>char\<close>.
\<close>

datatype json =
    JNull
  | JBool bool
  | JNum int
  | JStr string
  | JArr "json list"
  | JObj "(string \<times> json) list"

text \<open>Python truthiness (\<^verbatim>\<open>if x:\<close>, \<^verbatim>\<open>not x\<close>); \<open>JNull\<close> is \<^verbatim>\<open>None\<close>.\<close>

fun truthy :: "json \<Rightarrow> bool" where
  "truthy JNull = False"
| "truthy (JBool b) = b"
| "truthy (JNum n) = (n \<noteq> 0)"
| "truthy (JStr s) = (s \<noteq> [])"
| "truthy (JArr xs) = (xs \<noteq> [])"
| "truthy (JObj kvs) = (kvs \<noteq> [])"

type_synonym apod_record = "(string \<times> json) list"

text \<open>\<^verbatim>\<open>d[k] = v\<close> on a dictionary: overwrite in place, or append a new key.\<close>

definition dict_set :: "string \<Rightarrow> json \<Rightarrow> apod_record \<Rightarrow> apod_record" where
  "dict_set k v d = AList.update k v d"

text \<open>
  The exceptions the modelled code can raise. \<open>ValueError\<close> carries the message the
  source gives it; \<open>StrptimeError s\<close> is the \<^verbatim>\<open>ValueError\<close> that
  \<^verbatim>\<open>datetime.strptime(s, "%Y-%m-%d")\<close> raises (the library's message is left out);
  \<open>JSONDecodeError\<close> is the \<^verbatim>\<open>ValueError\<close> of a body that is not JSON.
\<close>

datatype error =
    ValueError string
  | StrptimeError string
  | JSONDecodeError
  | KeyError string
  | TypeError
  | AttributeError
  | RequestException

text \<open>\<^verbatim>\<open>except ValueError\<close> catches these.\<close>

fun is_ValueError :: "error \<Rightarrow> bool" where
  "is_ValueError (ValueError m) = True"
| "is_ValueError (StrptimeError s) = True"
| "is_ValueError JSONDecodeError = True"
| "is_ValueError e = False"

text \<open>
  A boolean request flag (\<^verbatim>\<open>concept_tags\<close>, \<^verbatim>\<open>thumbs\<close>) reaches the resolver as the
  Python \<^verbatim>\<open>False\<close> default or as the query string's text.
\<close>

datatype flag = FBool bool | FStr string

fun py_str :: "flag \<Rightarrow> string" where
  "py_str (FBool True) = ''True''"
| "py_str (FBool False) = ''False''"
| "py_str (FStr s) = s"

fun flag_truthy :: "flag \<Rightarrow> bool" where
  "flag_truthy (FBool b) = b"
| "flag_truthy (FStr s) = (s \<noteq> [])"

section \<open>Decimal text\<close>

definition digit_char :: "nat \<Rightarrow> char" where
  "digit_char n = ''0123456789'' ! n"

fun str_nat :: "nat \<Rightarrow> string" where
  "str_nat n = (if n < 10 then [digit_char n] else str_nat (n div 10) @ [digit_char (n mod 10)])"

declare str_nat.simps [simp del]

text \<open>\<^verbatim>\<open>str(i)\<close> of a Python integer.\<close>

definition str_int :: "int \<Rightarrow> string" where
  "str_int i = (if i < 0 then CHR ''-'' # str_nat (nat (- i)) else str_nat (nat i))"

text \<open>\<^verbatim>\<open>"%0wd" % i\<close> for a non-negative \<open>i\<close>: pad with zeros on the left up to width \<open>w\<close>.\<close>

definition zfill :: "nat \<Rightarrow> string \<Rightarrow> string" where
  "zfill w s = replicate (w - length s) CHR ''0'' @ s"

definition is_digit :: "char \<Rightarrow> bool" where
  "is_digit c = (c \<in> set ''0123456789'')"

definition digit_val :: "char \<Rightarrow> int" where
  "digit_val c = int (of_char c) - 48"

section \<open>Calendar dates\<close>

text \<open>
  \<^verbatim>\<open>datetime.date\<close>: a year, a month and a day; comparison is that of the triples.
  The ordinal arithmetic follows the library (\<^verbatim>\<open>_ymd2ord\<close>, \<^verbatim>\<open>_ord2ymd\<close>).
\<close>

record date =
  year :: int
  month :: int
  day :: int

definition date_lt :: "date \<Rightarrow> date \<Rightarrow> bool" where
  "date_lt a b =
     (year a < year b \<or>
      (year a = year b \<and> (month a < month b \<or> (month a = month b \<and> day a < day b))))"

definition date_le :: "date \<Rightarrow> date \<Rightarrow> bool" where
  "date_le a b = (date_lt a b \<or> a = b)"

definition DAYS_IN_MONTH :: "int list" where
  "DAYS_IN_MONTH = [-1, 31, 28, 31, 30, 31, 30, 31, 31, 30, 31, 30, 31]"

definition DAYS_BEFORE_MONTH :: "int list" where
  "DAYS_BEFORE_MONTH = [-1, 0, 31, 59, 90, 120, 151, 181, 212, 243, 273, 304, 334]"

definition is_leap :: "int \<Rightarrow> bool" where
  "is_leap y = (y mod 4 = 0 \<and> (y mod 100 \<noteq> 0 \<or> y mod 400 = 0))"

definition days_before_year :: "int \<Rightarrow> int" where
  "days_before_year y = (let y1 = y - 1 in y1 * 365 + y1 div 4 - y1 div 100 + y1 div 400)"

definition days_in_month :: "int \<Rightarrow> int \<Rightarrow> int" where
  "days_in_month y m = (if m = 2 \<and> is_leap y then 29 else DAYS_IN_MONTH ! nat m)"

definition days_before_month :: "int \<Rightarrow> int \<Rightarrow> int" where
  "days_before_month y m = DAYS_BEFORE_MONTH ! nat m + (if m > 2 \<and> is_leap y then 1 else 0)"

definition ymd2ord :: "int \<Rightarrow> int \<Rightarrow> int \<Rightarrow> int" where
  "ymd2ord y m d = days_before_year y + days_before_month y m + d"

definition ord2ymd :: "int \<Rightarrow> int \<times> int \<times> int" where
  "ord2ymd n0 =
     (let n = n0 - 1;
          n400 = n div 146097; n = n mod 146097;
          y = n400 * 400 + 1;
          n100 = n div 36524; n = n mod 36524;
          n4 = n div 1461; n = n mod 1461;
          n1 = n div 365; n = n mod 365;
          y = y + n100 * 100 + n4 * 4 + n1
      in if n1 = 4 \<or> n100 = 4 then (y - 1, 12, 31)
         else
           let leapyear = (n1 = 3 \<and> (n4 \<noteq> 24 \<or> n100 = 3));
               m = (n + 50) div 32;
               preceding = DAYS_BEFORE_MONTH ! nat m + (if m > 2 \<and> leapyear then 1 else 0)
           in if preceding > n
              then let m' = m - 1;
                       preceding' = preceding
                         - (DAYS_IN_MONTH ! nat m' + (if m' = 2 \<and> leapyear then 1 else 0))
                   in (y, m', n - preceding' + 1)
              else (y, m, n - preceding + 1))"

text \<open>The values a \<^verbatim>\<open>date\<close> object can hold (\<^verbatim>\<open>MINYEAR = 1\<close>, \<^verbatim>\<open>MAXYEAR = 9999\<close>).\<close>

definition valid_date :: "date \<Rightarrow> bool" where
  "valid_date d =
     (1 \<le> year d \<and> year d \<le> 9999 \<and> 1 \<le> month d \<and> month d \<le> 12 \<and>
      1 \<le> day d \<and> day d \<le> days_in_month (year d) (month d))"

definition toordinal :: "date \<Rightarrow> int" where
  "toordinal d = ymd2ord (year d) (month d) (day d)"

text \<open>
  \<^verbatim>\<open>date.fromordinal(n)\<close>. The library raises outside \<open>1..3652059\<close>; the resolver only
  passes ordinals that lie between those of two dates, so that branch is left out.
\<close>

definition fromordinal :: "int \<Rightarrow> date" where
  "fromordinal n = (case ord2ymd n of (y, m, d) \<Rightarrow> \<lparr>year = y, month = m, day = d\<rparr>)"

text \<open>\<^verbatim>\<open>date.isoformat()\<close>: \<^verbatim>\<open>"%04d-%02d-%02d"\<close>.\<close>

definition isoformat :: "date \<Rightarrow> string" where
  "isoformat d =
     zfill 4 (str_int (year d)) @ ''-'' @ zfill 2 (str_int (month d)) @ ''-''
       @ zfill 2 (str_int (day d))"

definition month_abbr :: "int \<Rightarrow> string" where
  "month_abbr m =
     [''Jan'', ''Feb'', ''Mar'', ''Apr'', ''May'', ''Jun'',
      ''Jul'', ''Aug'', ''Sep'', ''Oct'', ''Nov'', ''Dec''] ! nat (m - 1)"

text \<open>
  \<^verbatim>\<open>strftime("%b %d, %Y")\<close> and \<^verbatim>\<open>strftime("%Y-%m-%d")\<close> in the C locale; \<^verbatim>\<open>%Y\<close> is
  the year's decimal text (four digits from the year 1000 on).
\<close>

definition strftime_b_d_Y :: "date \<Rightarrow> string" where
  "strftime_b_d_Y d =
     month_abbr (month d) @ '' '' @ zfill 2 (str_int (day d)) @ '', '' @ str_int (year d)"

definition strftime_Y_m_d :: "date \<Rightarrow> string" where
  "strftime_Y_m_d d =
     str_int (year d) @ ''-'' @ zfill 2 (str_int (month d)) @ ''-'' @ zfill 2 (str_int (day d))"

text \<open>
  \<^verbatim>\<open>datetime.strptime(s, "%Y-%m-%d").date()\<close>. The library matches the regular
  expression \<^verbatim>\<open>(\d\d\d\d)-(1[0-2]|0[1-9]|[1-9])-(3[01]|[12]\d|0[1-9]|[1-9]| [1-9])\<close> at
  the start of \<open>s\<close>, refuses text left over after the match, and then builds the date,
  which refuses a day the month does not have. \<open>None\<close> stands for the \<^verbatim>\<open>ValueError\<close>.
\<close>

fun parse_Y :: "string \<Rightarrow> (int \<times> string) option" where
  "parse_Y (a # b # c # d # rest) =
     (if is_digit a \<and> is_digit b \<and> is_digit c \<and> is_digit d
      then Some (1000 * digit_val a + 100 * digit_val b + 10 * digit_val c + digit_val d, rest)
      else None)"
| "parse_Y s = None"

definition in_chars :: "char \<Rightarrow> string \<Rightarrow> bool" where
  "in_chars c cs = (c \<in> set cs)"

fun parse_m :: "string \<Rightarrow> (int \<times> string) option" where
  "parse_m [] = None"
| "parse_m [a] = (if in_chars a ''123456789'' then Some (digit_val a, []) else None)"
| "parse_m (a # b # rest) =
     (if a = CHR ''1'' \<and> in_chars b ''012'' then Some (10 + digit_val b, rest)
      else if a = CHR ''0'' \<and> in_chars b ''123456789'' then Some (digit_val b, rest)
      else if in_chars a ''123456789'' then Some (digit_val a, b # rest)
      else None)"

fun parse_d :: "string \<Rightarrow> (int \<times> string) option" where
  "parse_d [] = None"
| "parse_d [a] = (if in_chars a ''123456789'' then Some (digit_val a, []) else None)"
| "parse_d (a # b # rest) =
     (if a = CHR ''3'' \<and> in_chars b ''01'' then Some (30 + digit_val b, rest)
      else if in_chars a ''12'' \<and> is_digit b then Some (10 * digit_val a + digit_val b, rest)
      else if a = CHR ''0'' \<and> in_chars b ''123456789'' then Some (digit_val b, rest)
      else if in_chars a ''123456789'' then Some (digit_val a, b # rest)
      else if a = CHR '' '' \<and> in_chars b ''123456789'' then Some (digit_val b, rest)
      else None)"

definition strptime :: "string \<Rightarrow> date option" where
  "strptime s =
     (case parse_Y s of
        None \<Rightarrow> None
      | Some (y, r1) \<Rightarrow>
          (case r1 of
             [] \<Rightarrow> None
           | c1 # r2 \<Rightarrow>
               if c1 \<noteq> CHR ''-'' then None
               else (case parse_m r2 of
                  None \<Rightarrow> None
                | Some (m, r3) \<Rightarrow>
                    (case r3 of
                       [] \<Rightarrow> None
                     | c2 # r4 \<Rightarrow>
                         if c2 \<noteq> CHR ''-'' then None
                         else (case parse_d r4 of
                            None \<Rightarrow> None
                          | Some (d, r5) \<Rightarrow>
                              if r5 \<noteq> [] then None
                              else if valid_date \<lparr>year = y, month = m, day = d\<rparr>
                              then Some \<lparr>year = y, month = m, day = d\<rparr>
                              else None)))))"

section \<open>The environment of a request\<close>

text \<open>
  What the page parser is asked for: \<^verbatim>\<open>_get_json_for_date\<close> passes its \<^verbatim>\<open>input_date\<close>
  on when that is absent (\<^verbatim>\<open>None\<close>) or empty, the other callers pass a date.
\<close>

datatype dt_arg = DtNone | DtEmpty | DtDate date

text \<open>
  \<^verbatim>\<open>apod.utility.parse_apod\<close> is imported, not defined in \<^verbatim>\<open>application.py\<close>: it
  raises, returns \<^verbatim>\<open>None\<close>, or returns the page's properties.
\<close>

datatype fetched = FRaise | FNone | FProps apod_record

text \<open>
  Everything a call reads from outside the module: the clock (local and UTC), the key
  file, the page parser, the concept tagger (\<open>None\<close> when it raises) and the permutation
  \<^verbatim>\<open>random.shuffle\<close> produces.
\<close>

record env =
  today_local :: date
  today_utc :: date
  ALCHEMY_API_KEY :: "string option"
  parse_apod :: "dt_arg \<Rightarrow> bool \<Rightarrow> flag \<Rightarrow> fetched"
  get_concepts :: "json \<Rightarrow> string \<Rightarrow> json option"
  shuffle :: "int list \<Rightarrow> int list"

section \<open>Date validation\<close>

definition begin_date :: date where
  "begin_date = \<lparr>year = 1995, month = 6, day = 16\<rparr>"

definition validate_date :: "env \<Rightarrow> date \<Rightarrow> error + unit" where
  "validate_date e dt =
     (let today = today_local e; begin = begin_date
      in if date_lt today dt \<or> date_lt dt begin
         then Inl (ValueError (''Date must be between '' @ strftime_b_d_Y begin @ '' and ''
                     @ strftime_b_d_Y today @ ''.''))
         else Inr ())"

section \<open>The resolver's building blocks\<close>

definition SERVICE_VERSION :: string where
  "SERVICE_VERSION = ''v1''"

definition APOD_METHOD_NAME :: string where
  "APOD_METHOD_NAME = ''apod''"

definition ALLOWED_APOD_FIELDS :: "string list" where
  "ALLOWED_APOD_FIELDS =
     [''concept_tags'', ''date'', ''hd'', ''count'', ''start_date'', ''end_date'', ''thumbs'']"

text \<open>\<^verbatim>\<open>sep.join(xs)\<close> on strings.\<close>

fun join :: "string \<Rightarrow> string list \<Rightarrow> string" where
  "join sep [] = []"
| "join sep [x] = x"
| "join sep (x # y # ys) = x @ sep @ join sep (y # ys)"

definition usage :: "string \<Rightarrow> string \<Rightarrow> string" where
  "usage joinstr prestr =
     ''Allowed request fields for '' @ APOD_METHOD_NAME @ '' method are '' @ prestr
       @ join joinstr ALLOWED_APOD_FIELDS"

text \<open>
  The response \<^verbatim>\<open>_abort\<close> builds: \<^verbatim>\<open>jsonify(service_version=..., msg=msg, code=code)\<close> with
  the status code set.
\<close>

record response =
  status_code :: int
  body_service_version :: string
  body_msg :: string
  body_code :: int

definition abort :: "int \<Rightarrow> string \<Rightarrow> bool \<Rightarrow> response" where
  "abort code msg with_usage =
     (let msg' = (if with_usage
                  then msg @ '' '' @ usage [CHR 0x27, CHR '','', CHR '' '', CHR 0x27] [CHR 0x27]
                         @ [CHR 0x27]
                  else msg)
      in \<lparr>status_code = code, body_service_version = SERVICE_VERSION, body_msg = msg',
          body_code = code\<rparr>)"

text \<open>
  The module's mutable state the resolver touches: the cache \<^verbatim>\<open>RESULTS_DICT\<close>, and, as a
  ghost field, the list of calls made to the page parser (one entry per upstream fetch).
\<close>

record state =
  RESULTS_DICT :: "string \<rightharpoonup> apod_record"
  upstream_log :: "(dt_arg \<times> bool \<times> flag) list"

text \<open>What \<^verbatim>\<open>_apod_handler\<close> returns: \<^verbatim>\<open>None\<close>, the page's properties, or a 500 response.\<close>

datatype handled = HNone | HDict apod_record | HResponse response

definition apod_handler ::
  "env \<Rightarrow> state \<Rightarrow> dt_arg \<Rightarrow> flag \<Rightarrow> bool \<Rightarrow> flag \<Rightarrow> handled \<times> state" where
  "apod_handler e st dt use_concept_tags use_default_today_date thumbs =
     (let st1 = st\<lparr>upstream_log := upstream_log st @ [(dt, use_default_today_date, thumbs)]\<rparr>;
          internal_error = HResponse (abort 500 ''Internal Service Error'' False)
      in case parse_apod e dt use_default_today_date thumbs of
           FRaise \<Rightarrow> (internal_error, st1)
         | FNone \<Rightarrow> (HNone, st1)
         | FProps page_props \<Rightarrow>
             if page_props = [] then (HNone, st1)
             else if flag_truthy use_concept_tags then
               (case ALCHEMY_API_KEY e of
                  None \<Rightarrow>
                    (HDict (dict_set ''concepts''
                       (JStr ''concept_tags functionality turned off in current service'')
                       page_props), st1)
                | Some api_key \<Rightarrow>
                    (case map_of page_props ''explanation'' of
                       None \<Rightarrow> (internal_error, st1)
                     | Some explanation \<Rightarrow>
                         (case get_concepts e explanation api_key of
                            None \<Rightarrow> (internal_error, st1)
                          | Some concepts \<Rightarrow>
                              (HDict (dict_set ''concepts'' concepts page_props), st1))))
             else (HDict page_props, st1))"

text \<open>
  The cache key, which \<^verbatim>\<open>_get_json_for_date\<close> spells out three times:
  \<^verbatim>\<open>str(year) + "y" + str(month) + "m" + str(day) + "d" + str(use_concept_tags) + str(thumbs)\<close>.
\<close>

definition make_key :: "date \<Rightarrow> flag \<Rightarrow> flag \<Rightarrow> string" where
  "make_key d use_concept_tags thumbs =
     str_int (year d) @ ''y'' @ str_int (month d) @ ''m'' @ str_int (day d) @ ''d''
       @ py_str use_concept_tags @ py_str thumbs"

section \<open>Single-date resolution\<close>

text \<open>
  Lines 172 to 203 of \<^verbatim>\<open>_get_json_for_date\<close>: the date the page parser is asked for,
  whether today's page is meant, and the key the cache is read under. \<^verbatim>\<open>not input_date\<close>
  holds for \<^verbatim>\<open>None\<close> and for the empty string.
\<close>

definition resolve_input_date ::
  "env \<Rightarrow> string option \<Rightarrow> flag \<Rightarrow> flag \<Rightarrow> error + (dt_arg \<times> bool \<times> string)" where
  "resolve_input_date e input_date use_concept_tags thumbs =
     (case input_date of
        None \<Rightarrow> Inr (DtNone, True, make_key (today_utc e) use_concept_tags thumbs)
      | Some s \<Rightarrow>
          if s = [] then Inr (DtEmpty, True, make_key (today_utc e) use_concept_tags thumbs)
          else (case strptime s of
                  None \<Rightarrow> Inl (StrptimeError s)
                | Some dt \<Rightarrow>
                    (case validate_date e dt of
                       Inl err \<Rightarrow> Inl err
                     | Inr u \<Rightarrow> Inr (DtDate dt, False, make_key dt use_concept_tags thumbs))))"

text \<open>What a resolver hands back to Flask: \<^verbatim>\<open>jsonify(data)\<close> or an error response.\<close>

datatype reply = Jsonify apod_record | Aborted response

text \<open>\<^verbatim>\<open>f"{input_date}"\<close> in the 404 message.\<close>

definition format_input :: "string option \<Rightarrow> string" where
  "format_input input_date = (case input_date of None \<Rightarrow> ''None'' | Some s \<Rightarrow> s)"

text \<open>
  On a cache hit \<^verbatim>\<open>data\<close> is the cached dictionary itself, so setting its
  \<^verbatim>\<open>service_version\<close> changes the entry it was read from too; the model writes that
  entry before the one under the recomputed key.
\<close>

definition get_json_for_date ::
  "env \<Rightarrow> state \<Rightarrow> string option \<Rightarrow> flag \<Rightarrow> flag \<Rightarrow> (error + reply) \<times> state" where
  "get_json_for_date e st input_date use_concept_tags thumbs =
     (case resolve_input_date e input_date use_concept_tags thumbs of
        Inl err \<Rightarrow> (Inl err, st)
      | Inr (dt, use_default_today_date, key) \<Rightarrow>
          (let cached = RESULTS_DICT st key;
               (data, st1) =
                 (case cached of
                    Some r \<Rightarrow> (HDict r, st)
                  | None \<Rightarrow>
                      apod_handler e st dt use_concept_tags use_default_today_date thumbs);
               not_found = Aborted (abort 404
                 (''No data available for date: '' @ format_input input_date) False)
           in case data of
                HNone \<Rightarrow> (Inr not_found, st1)
              | HResponse resp \<Rightarrow> (Inr (Aborted resp), st1)
              | HDict r \<Rightarrow>
                  if r = [] then (Inr not_found, st1)
                  else
                    (let data' = dict_set ''service_version'' (JStr SERVICE_VERSION) r;
                         st2 = (if cached = None then st1
                                else st1\<lparr>RESULTS_DICT := (RESULTS_DICT st1)(key \<mapsto> data')\<rparr>)
                     in case map_of data' ''date'' of
                          None \<Rightarrow> (Inl (KeyError ''date''), st2)
                        | Some (JStr s) \<Rightarrow>
                            (case strptime s of
                               None \<Rightarrow> (Inl (StrptimeError s), st2)
                             | Some datadate \<Rightarrow>
                                 (Inr (Jsonify data'),
                                  st2\<lparr>RESULTS_DICT := (RESULTS_DICT st2)
                                    (make_key datadate use_concept_tags thumbs \<mapsto> data')\<rparr>))
                        | Some other \<Rightarrow> (Inl TypeError, st2))))"

section \<open>Random-sample resolution\<close>

text \<open>The \<^verbatim>\<open>for\<close> loop of \<^verbatim>\<open>_get_json_for_random_dates\<close>, with its \<^verbatim>\<open>break\<close>.\<close>

fun random_loop ::
  "env \<Rightarrow> flag \<Rightarrow> flag \<Rightarrow> int \<Rightarrow> int \<Rightarrow> int list \<Rightarrow> state \<Rightarrow> apod_record list
     \<Rightarrow> apod_record list \<times> state" where
  "random_loop e use_concept_tags thumbs count today_ordinal [] st all_data = (all_data, st)"
| "random_loop e use_concept_tags thumbs count today_ordinal (date_ordinal # rest) st all_data =
     (case apod_handler e st (DtDate (fromordinal date_ordinal)) use_concept_tags
             (date_ordinal = today_ordinal) thumbs of
        (HNone, st1) \<Rightarrow> random_loop e use_concept_tags thumbs count today_ordinal rest st1 all_data
      | (HResponse resp, st1) \<Rightarrow>
          random_loop e use_concept_tags thumbs count today_ordinal rest st1 all_data
      | (HDict r, st1) \<Rightarrow>
          if r = [] then random_loop e use_concept_tags thumbs count today_ordinal rest st1 all_data
          else
            (let all_data' = all_data @ [dict_set ''service_version'' (JStr SERVICE_VERSION) r]
             in if int (length all_data') \<ge> count then (all_data', st1)
                else random_loop e use_concept_tags thumbs count today_ordinal rest st1 all_data'))"

definition get_json_for_random_dates ::
  "env \<Rightarrow> state \<Rightarrow> int \<Rightarrow> flag \<Rightarrow> flag \<Rightarrow> (error + apod_record list) \<times> state" where
  "get_json_for_random_dates e st count use_concept_tags thumbs =
     (if count > 100 \<or> count \<le> 0
      then (Inl (ValueError ''Count must be positive and cannot exceed 100''), st)
      else
        (let begin_ordinal = toordinal \<lparr>year = 1995, month = 6, day = 16\<rparr>;
             today_ordinal = toordinal (today_local e);
             random_date_ordinals = shuffle e [begin_ordinal..today_ordinal]
         in case random_loop e use_concept_tags thumbs count today_ordinal
                   random_date_ordinals st [] of
              (all_data, st') \<Rightarrow> (Inr all_data, st')))"

section \<open>Range resolution\<close>

text \<open>The \<^verbatim>\<open>while start_ordinal <= end_ordinal\<close> loop of \<^verbatim>\<open>_get_json_for_date_range\<close>.\<close>

function range_loop ::
  "env \<Rightarrow> flag \<Rightarrow> flag \<Rightarrow> int \<Rightarrow> int \<Rightarrow> int \<Rightarrow> state \<Rightarrow> apod_record list
     \<Rightarrow> (error + apod_record list) \<times> state" where
  "range_loop e use_concept_tags thumbs today_ordinal end_ordinal start_ordinal st all_data =
     (if start_ordinal \<le> end_ordinal then
        (case apod_handler e st (DtDate (fromordinal start_ordinal)) use_concept_tags
                (start_ordinal = today_ordinal) thumbs of
           (HNone, st1) \<Rightarrow>
             range_loop e use_concept_tags thumbs today_ordinal end_ordinal (start_ordinal + 1)
               st1 all_data
         | (HResponse resp, st1) \<Rightarrow>
             range_loop e use_concept_tags thumbs today_ordinal end_ordinal (start_ordinal + 1)
               st1 all_data
         | (HDict r, st1) \<Rightarrow>
             if r = [] then
               range_loop e use_concept_tags thumbs today_ordinal end_ordinal (start_ordinal + 1)
                 st1 all_data
             else
               (let data' = dict_set ''service_version'' (JStr SERVICE_VERSION) r
                in case map_of data' ''date'' of
                     None \<Rightarrow> (Inl (KeyError ''date''), st1)
                   | Some v \<Rightarrow>
                       range_loop e use_concept_tags thumbs today_ordinal end_ordinal
                         (start_ordinal + 1) st1
                         (if v = JStr (isoformat (fromordinal start_ordinal))
                          then all_data @ [data'] else all_data)))
      else (Inr all_data, st))"
  by pat_completeness auto
termination
  by (relation "measure (\<lambda>(e, c, t, today_ordinal, end_ordinal, start_ordinal, st, all_data).
        nat (end_ordinal + 1 - start_ordinal))") auto

declare range_loop.simps [simp del]

definition get_json_for_date_range ::
  "env \<Rightarrow> state \<Rightarrow> string \<Rightarrow> string option \<Rightarrow> flag \<Rightarrow> flag
     \<Rightarrow> (error + apod_record list) \<times> state" where
  "get_json_for_date_range e st start_date end_date use_concept_tags thumbs =
     (case strptime start_date of
        None \<Rightarrow> (Inl (StrptimeError start_date), st)
      | Some start_dt \<Rightarrow>
          (case validate_date e start_dt of
             Inl err \<Rightarrow> (Inl err, st)
           | Inr u \<Rightarrow>
               (let end_date' =
                      (case end_date of
                         None \<Rightarrow> strftime_Y_m_d (today_local e)
                       | Some s \<Rightarrow> if s = [] then strftime_Y_m_d (today_local e) else s)
                in case strptime end_date' of
                     None \<Rightarrow> (Inl (StrptimeError end_date'), st)
                   | Some end_dt \<Rightarrow>
                       (case validate_date e end_dt of
                          Inl err \<Rightarrow> (Inl err, st)
                        | Inr u \<Rightarrow>
                            (let start_ordinal = toordinal start_dt;
                                 end_ordinal = toordinal end_dt;
                                 today_ordinal = toordinal (today_local e)
                             in if start_ordinal > end_ordinal
                                then (Inl (ValueError ''start_date cannot be after end_date''), st)
                                else range_loop e use_concept_tags thumbs today_ordinal
                                       end_ordinal start_ordinal st [])))))"

section \<open>Translation\<close>

text \<open>
  What a call through \<^verbatim>\<open>requests\<close> can give: a transport fault or a refused status
  (both \<^verbatim>\<open>RequestException\<close>, the second from \<^verbatim>\<open>raise_for_status\<close>), a body that is not
  JSON, or the parsed body.
\<close>

datatype http_reply = ConnectionFault | StatusError | NotJson | JsonBody json

record tr_env =
  TRANSLATE_ENABLED :: bool
  libretranslate_post :: "string \<Rightarrow> http_reply"
  google_get :: "string \<Rightarrow> http_reply"

datatype provider = LibreTranslate | Google

text \<open>\<^verbatim>\<open>TRANSLATE_CACHE\<close>, and as a ghost field the providers contacted, in order.\<close>

record tr_state =
  TRANSLATE_CACHE :: "string \<rightharpoonup> json"
  provider_log :: "(provider \<times> string) list"

definition translate_with_libretranslate :: "tr_env \<Rightarrow> string \<Rightarrow> error + json" where
  "translate_with_libretranslate e txt =
     (case libretranslate_post e txt of
        ConnectionFault \<Rightarrow> Inl RequestException
      | StatusError \<Rightarrow> Inl RequestException
      | NotJson \<Rightarrow> Inl JSONDecodeError
      | JsonBody body \<Rightarrow>
          (case body of
             JObj kvs \<Rightarrow>
               Inr (case map_of kvs ''translatedText'' of None \<Rightarrow> JNull | Some v \<Rightarrow> v)
           | other \<Rightarrow> Inl AttributeError))"

text \<open>\<^verbatim>\<open>for part in x\<close>: the items a JSON value yields when iterated.\<close>

fun iter_json :: "json \<Rightarrow> error + json list" where
  "iter_json (JArr xs) = Inr xs"
| "iter_json (JStr s) = Inr (map (\<lambda>c. JStr [c]) s)"
| "iter_json (JObj kvs) = Inr (map (\<lambda>kv. JStr (fst kv)) kvs)"
| "iter_json other = Inl TypeError"

text \<open>\<^verbatim>\<open>part[0]\<close> of a truthy part; a dictionary has no key \<open>0\<close>.\<close>

fun first_item :: "json \<Rightarrow> error + json" where
  "first_item (JArr (x # xs)) = Inr x"
| "first_item (JStr (c # cs)) = Inr (JStr [c])"
| "first_item (JObj kvs) = Inl (KeyError ''0'')"
| "first_item other = Inl TypeError"

text \<open>
  The generator \<^verbatim>\<open>part[0] for part in parts if part and part[0]\<close>, which \<^verbatim>\<open>join\<close> runs to
  its end before it looks at the items.
\<close>

fun gen_parts :: "json list \<Rightarrow> error + json list" where
  "gen_parts [] = Inr []"
| "gen_parts (part # rest) =
     (if \<not> truthy part then gen_parts rest
      else (case first_item part of
              Inl err \<Rightarrow> Inl err
            | Inr p0 \<Rightarrow>
                if \<not> truthy p0 then gen_parts rest
                else (case gen_parts rest of
                        Inl err \<Rightarrow> Inl err
                      | Inr items \<Rightarrow> Inr (p0 # items))))"

fun join_strs :: "json list \<Rightarrow> error + string" where
  "join_strs [] = Inr []"
| "join_strs (JStr s # rest) =
     (case join_strs rest of Inl err \<Rightarrow> Inl err | Inr r \<Rightarrow> Inr (s @ r))"
| "join_strs (other # rest) = Inl TypeError"

definition translate_with_google :: "tr_env \<Rightarrow> string \<Rightarrow> error + json" where
  "translate_with_google e txt =
     (case google_get e txt of
        ConnectionFault \<Rightarrow> Inl RequestException
      | StatusError \<Rightarrow> Inl RequestException
      | NotJson \<Rightarrow> Inl JSONDecodeError
      | JsonBody body \<Rightarrow>
          (case body of
             JArr (d0 # ds) \<Rightarrow>
               (case iter_json d0 of
                  Inl err \<Rightarrow> Inl err
                | Inr parts \<Rightarrow>
                    (case gen_parts parts of
                       Inl err \<Rightarrow> Inl err
                     | Inr items \<Rightarrow>
                         (case join_strs items of
                            Inl err \<Rightarrow> Inl err
                          | Inr s \<Rightarrow> Inr (JStr s))))
           | other \<Rightarrow> Inr JNull))"

text \<open>
  \<^verbatim>\<open>_translate_to_zh\<close>. Both provider calls stand in one \<^verbatim>\<open>try\<close> block whose handlers
  catch \<^verbatim>\<open>RequestException\<close> and \<^verbatim>\<open>ValueError\<close>; any other exception leaves the function.
\<close>

definition translate_to_zh :: "tr_env \<Rightarrow> tr_state \<Rightarrow> string \<Rightarrow> (error + json) \<times> tr_state" where
  "translate_to_zh e st txt =
     (if txt = [] \<or> \<not> TRANSLATE_ENABLED e then (Inr (JStr txt), st)
      else (case TRANSLATE_CACHE st txt of
              Some v \<Rightarrow> (Inr v, st)
            | None \<Rightarrow>
                (let st1 = st\<lparr>provider_log := provider_log st @ [(LibreTranslate, txt)]\<rparr>;
                     first_try = translate_with_libretranslate e txt;
                     (translated, st2) =
                       (case first_try of
                          Inl err \<Rightarrow> (Inl err, st1)
                        | Inr v \<Rightarrow>
                            if \<not> truthy v
                            then (translate_with_google e txt,
                                  st1\<lparr>provider_log := provider_log st1 @ [(Google, txt)]\<rparr>)
                            else (Inr v, st1))
                 in case translated of
                      Inl err \<Rightarrow>
                        if err = RequestException \<or> is_ValueError err then (Inr (JStr txt), st2)
                        else (Inl err, st2)
                    | Inr v \<Rightarrow>
                        if truthy v
                        then (Inr v, st2\<lparr>TRANSLATE_CACHE := (TRANSLATE_CACHE st2)(txt \<mapsto> v)\<rparr>)
                        else (Inr (JStr txt), st2))))"

section \<open>Notions the statements use\<close>

text \<open>
  The date a record carries, read as \<^verbatim>\<open>_get_json_for_date\<close> reads it (line 223):
  \<^verbatim>\<open>datetime.strptime(data["date"], "%Y-%m-%d").date()\<close>; \<open>None\<close> where that raises.
\<close>

definition record_date :: "apod_record \<Rightarrow> date option" where
  "record_date r = (case map_of r ''date'' of Some (JStr s) \<Rightarrow> strptime s | other \<Rightarrow> None)"


definition has_service_version :: "apod_record \<Rightarrow> bool" where
  "has_service_version r = (map_of r ''service_version'' = Some (JStr ''v1''))"





subsection \<open>Auxiliary notions of the calendar\<close>

text \<open>
  The two halves of \<^verbatim>\<open>_ord2ymd\<close>, named so that they can be reasoned about apart: the
  split of an ordinal into 400-, 100-, 4- and 1-year cycles with the day left over, and
  the month estimate with its correction.
\<close>

definition days_in_year :: "int \<Rightarrow> int" where
  "days_in_year y = (if is_leap y then 366 else 365)"

definition year_split :: "int \<Rightarrow> int \<times> int \<times> int \<times> int \<times> int" where
  "year_split n0 =
     (let n = n0 - 1;
          n400 = n div 146097; n = n mod 146097;
          n100 = n div 36524; n = n mod 36524;
          n4 = n div 1461; n = n mod 1461;
          n1 = n div 365; n = n mod 365
      in (n400, n100, n4, n1, n))"

definition month_day :: "int \<Rightarrow> bool \<Rightarrow> int \<times> int" where
  "month_day n leapyear =
     (let m = (n + 50) div 32;
          preceding = DAYS_BEFORE_MONTH ! nat m + (if m > 2 \<and> leapyear then 1 else 0)
      in if preceding > n
         then let m' = m - 1;
                  preceding' = preceding
                    - (DAYS_IN_MONTH ! nat m' + (if m' = 2 \<and> leapyear then 1 else 0))
              in (m', n - preceding' + 1)
         else (m, n - preceding + 1))"

section \<open>Concrete inputs\<close>

text \<open>
  A small world the theorems below are run on: the clock stands at 1995-06-18, three days
  after the first picture, and the page parser answers every date with a record of that
  date (today's page when no date is given).
\<close>

definition demo_record :: "string \<Rightarrow> apod_record" where
  "demo_record iso_date =
     [(''date'', JStr iso_date), (''title'', JStr ''A title''),
      (''explanation'', JStr ''An explanation'')]"

definition demo_today :: date where
  "demo_today = \<lparr>year = 1995, month = 6, day = 18\<rparr>"

definition demo_env :: env where
  "demo_env =
     \<lparr>today_local = demo_today, today_utc = demo_today, ALCHEMY_API_KEY = None,
      parse_apod = (\<lambda>dt use_default thumbs.
         case dt of DtDate d \<Rightarrow> FProps (demo_record (isoformat d))
                  | other \<Rightarrow> FProps (demo_record (isoformat demo_today))),
      get_concepts = (\<lambda>explanation api_key. None),
      shuffle = rev\<rparr>"

definition empty_state :: state where
  "empty_state = \<lparr>RESULTS_DICT = Map.empty, upstream_log = []\<rparr>"

text \<open>The body the public endpoint answers with: fragments, then metadata.\<close>

definition google_body :: json where
  "google_body =
     JArr [JArr [JArr [JStr ''ni hao'', JStr ''hello'', JNull, JNull, JNum 10]], JNull,
           JStr ''en'']"

text \<open>The primary provider is unreachable; the secondary would translate.\<close>

definition outage_env :: tr_env where
  "outage_env =
     \<lparr>TRANSLATE_ENABLED = True, libretranslate_post = (\<lambda>q. ConnectionFault),
      google_get = (\<lambda>q. JsonBody google_body)\<rparr>"


definition empty_tr_state :: tr_state where
  "empty_tr_state = \<lparr>TRANSLATE_CACHE = Map.empty, provider_log = []\<rparr>"

text \<open>A page parser that has gone down: every call raises.\<close>

definition broken_env :: env where
  "broken_env = demo_env\<lparr>parse_apod := (\<lambda>dt use_default thumbs. FRaise)\<rparr>"

text \<open>The record the demo parser gives for a date, as the resolver hands it out.\<close>

definition served :: "string \<Rightarrow> apod_record" where
  "served iso_date = demo_record iso_date @ [(''service_version'', JStr ''v1'')]"

text \<open>
  The clock of the service is a day ahead of the picture archive: asked for today's page
  with the default-today flag, the parser falls back to the page of the day before.
\<close>

definition skew_env :: env where
  "skew_env =
     demo_env\<lparr>parse_apod := (\<lambda>dt use_default thumbs.
        case dt of
          DtDate d \<Rightarrow>
            if use_default
            then FProps (demo_record (isoformat (fromordinal (toordinal d - 1))))
            else FProps (demo_record (isoformat d))
        | other \<Rightarrow> FProps (demo_record (isoformat (fromordinal (toordinal demo_today - 1)))))\<rparr>"

section \<open>Basic facts\<close>

lemma date_le_iff: "date_le a b \<longleftrightarrow> \<not> date_lt b a"
  by (cases a; cases b) (auto simp: date_le_def date_lt_def)

lemma strftime_begin: "strftime_b_d_Y begin_date = ''Jun 16, 1995''"
  by code_simp

lemma map_of_dict_set: "map_of (dict_set k v d) k = Some v"
  by (simp add: dict_set_def update_conv')


lemma dict_set_nonempty: "dict_set k v d \<noteq> []"
  by (cases d) (auto simp: dict_set_def)

lemma dict_set_idem: "map_of d k = Some v \<Longrightarrow> dict_set k v d = d"
  by (simp add: dict_set_def update_triv)

lemma apod_handler_state:
  "snd (apod_handler e st dt c u t) = st\<lparr>upstream_log := upstream_log st @ [(dt, u, t)]\<rparr>"
  by (simp add: apod_handler_def Let_def split: fetched.splits option.splits)

lemma apod_handler_cache_indep:
  "fst (apod_handler e (st\<lparr>RESULTS_DICT := m\<rparr>) dt c u t) = fst (apod_handler e st dt c u t)"
  by (simp add: apod_handler_def Let_def split: fetched.splits option.splits)

text \<open>
  A successful single-date resolution: the record returned has a date that parses and the
  service version, and it is the cache's entry under the key made from its own date.
\<close>

lemma get_json_for_date_Jsonify:
  assumes "get_json_for_date e st i c t = (Inr (Jsonify r), st')"
  shows "\<exists>s d. map_of r ''date'' = Some (JStr s) \<and> strptime s = Some d \<and>
           map_of r ''service_version'' = Some (JStr SERVICE_VERSION) \<and>
           RESULTS_DICT st' (make_key d c t) = Some r"
  using assms unfolding get_json_for_date_def
  by (auto simp: Let_def map_of_dict_set
           split: sum.splits prod.splits option.splits handled.splits json.splits if_splits)

lemma validate_date_today:
  "today_local e2 = today_local e \<Longrightarrow> validate_date e2 d = validate_date e d"
  by (simp add: validate_date_def)

lemma strptime_Nil: "strptime [] = None"
  by (simp add: strptime_def)

lemma get_json_for_date_resolved:
  assumes "get_json_for_date e st i c t = (Inr r, st')"
  shows "\<exists>x. resolve_input_date e i c t = Inr x"
proof (cases "resolve_input_date e i c t")
  case (Inl err)
  with assms show ?thesis by (simp add: get_json_for_date_def)
next
  case (Inr x)
  then show ?thesis by blast
qed

lemma get_json_for_date_explicit_valid:
  assumes "get_json_for_date e st (Some ds) c t = (Inr r, st')" "strptime ds = Some d"
  shows "validate_date e d = Inr ()"
proof -
  from assms(2) have "ds \<noteq> []" by (auto simp: strptime_Nil)
  with get_json_for_date_resolved [OF assms(1)] assms(2) show ?thesis
    by (auto simp: resolve_input_date_def split: sum.splits)
qed

lemma has_service_version_dict_set:
  "has_service_version (dict_set ''service_version'' (JStr SERVICE_VERSION) r)"
  by (simp add: has_service_version_def map_of_dict_set SERVICE_VERSION_def)

lemma apod_handler_split:
  "apod_handler e st dt c u t =
     (fst (apod_handler e st dt c u t), st\<lparr>upstream_log := upstream_log st @ [(dt, u, t)]\<rparr>)"
  using apod_handler_state [of e st dt c u t] by (metis prod.collapse)

subsection \<open>The random-sample loop\<close>

lemma random_loop_service_version:
  "list_all has_service_version acc \<Longrightarrow>
   list_all has_service_version (fst (random_loop e c t n today xs st acc))"
proof (induction xs arbitrary: st acc)
  case Nil
  then show ?case by simp
next
  case (Cons x xs)
  show ?case
    apply (subst random_loop.simps)
    apply (subst apod_handler_split)
    using Cons.prems
    by (auto simp: Let_def has_service_version_dict_set intro!: Cons.IH split: handled.splits)
qed

lemma random_loop_cache:
  "RESULTS_DICT (snd (random_loop e c t n today xs st acc)) = RESULTS_DICT st"
proof (induction xs arbitrary: st acc)
  case Nil
  then show ?case by simp
next
  case (Cons x xs)
  show ?case
    apply (subst random_loop.simps)
    apply (subst apod_handler_split)
    by (auto simp: Let_def Cons.IH split: handled.splits)
qed

lemma random_loop_cache_indep:
  "fst (random_loop e c t n today xs (st\<lparr>RESULTS_DICT := m\<rparr>) acc)
     = fst (random_loop e c t n today xs st acc)"
proof (induction xs arbitrary: st acc)
  case Nil
  then show ?case by simp
next
  case (Cons x xs)
  have upd: "\<And>l. st\<lparr>RESULTS_DICT := m, upstream_log := l\<rparr>
                  = st\<lparr>upstream_log := l\<rparr>\<lparr>RESULTS_DICT := m\<rparr>"
    by simp
  show ?case
    apply (subst (1 2) random_loop.simps)
    apply (subst (1 2) apod_handler_split)
    by (auto simp: Let_def apod_handler_cache_indep upd Cons.IH simp del: update_convs
             split: handled.splits)
qed

lemma random_loop_length:
  "int (length acc) < n \<Longrightarrow> int (length (fst (random_loop e c t n today xs st acc))) \<le> n"
proof (induction xs arbitrary: st acc)
  case Nil
  then show ?case by simp
next
  case (Cons x xs)
  show ?case
    apply (subst random_loop.simps)
    apply (subst apod_handler_split)
    using Cons.prems
    by (auto simp: Let_def intro!: Cons.IH split: handled.splits)
qed

subsection \<open>The range loop\<close>

lemma range_loop_done:
  "en < s \<Longrightarrow> range_loop e c t today en s st acc = (Inr acc, st)"
  by (subst range_loop.simps) simp

text \<open>One turn of the loop, by what the handler gave.\<close>

lemma range_loop_step:
  assumes "s \<le> en"
  shows "range_loop e c t today en s st acc =
     (let st1 = st\<lparr>upstream_log := upstream_log st @ [(DtDate (fromordinal s), s = today, t)]\<rparr>
      in case fst (apod_handler e st (DtDate (fromordinal s)) c (s = today) t) of
           HDict r \<Rightarrow>
             if r = [] then range_loop e c t today en (s + 1) st1 acc
             else (case map_of (dict_set ''service_version'' (JStr SERVICE_VERSION) r) ''date'' of
                     None \<Rightarrow> (Inl (KeyError ''date''), st1)
                   | Some v \<Rightarrow>
                       range_loop e c t today en (s + 1) st1
                         (if v = JStr (isoformat (fromordinal s))
                          then acc @ [dict_set ''service_version'' (JStr SERVICE_VERSION) r]
                          else acc))
         | other \<Rightarrow> range_loop e c t today en (s + 1) st1 acc)"
  apply (subst range_loop.simps)
  apply (subst apod_handler_split)
  using assms by (simp add: Let_def split: handled.splits)

lemma range_loop_service_version:
  "list_all has_service_version acc \<Longrightarrow>
   range_loop e c t today en s st acc = (Inr rs, st') \<Longrightarrow>
   list_all has_service_version rs"
proof (induction "nat (en + 1 - s)" arbitrary: s st acc)
  case 0
  then have "en < s" by simp
  with 0 show ?case by (simp add: range_loop_done)
next
  case (Suc k)
  then have le: "s \<le> en" and k: "k = nat (en + 1 - (s + 1))" by auto
  note IH = Suc.hyps(1) [OF k, rotated]
  from Suc.prems(2) Suc.prems(1) show ?case
    unfolding range_loop_step [OF le]
    by (auto simp: Let_def has_service_version_dict_set dest!: IH
             split: handled.splits if_splits option.splits)
qed






section \<open>The calendar\<close>

subsection \<open>Days before a year\<close>

lemma div_pred:
  fixes y k :: int
  assumes "0 < k"
  shows "y div k = (y - 1) div k + (if y mod k = 0 then 1 else 0)"
proof (cases "y mod k = 0")
  case True
  have "y - 1 = k * (y div k - 1) + (k - 1)"
    using True div_mult_mod_eq [of y k] by (simp add: algebra_simps)
  from int_div_pos_eq [OF this] assms have "(y - 1) div k = y div k - 1"
    by simp
  with True show ?thesis by simp
next
  case False
  with assms have pos: "0 < y mod k"
    using pos_mod_sign [of k y] by linarith
  have "y - 1 = k * (y div k) + (y mod k - 1)"
    using div_mult_mod_eq [of y k] by (simp add: algebra_simps)
  from int_div_pos_eq [OF this] assms pos pos_mod_bound [OF assms, of y]
  have "(y - 1) div k = y div k"
    by simp
  with False show ?thesis by simp
qed

lemma mod_100_imp_4:
  assumes "(y::int) mod 100 = 0"
  shows "y mod 4 = 0"
proof -
  from assms have "100 dvd y" by (simp add: mod_eq_0_iff_dvd)
  moreover have "(4::int) dvd 100" by simp
  ultimately have "4 dvd y" using dvd_trans by blast
  then show ?thesis by (simp add: mod_eq_0_iff_dvd)
qed

lemma mod_400_imp_100:
  assumes "(y::int) mod 400 = 0"
  shows "y mod 100 = 0"
proof -
  from assms have "400 dvd y" by (simp add: mod_eq_0_iff_dvd)
  moreover have "(100::int) dvd 400" by simp
  ultimately have "100 dvd y" using dvd_trans by blast
  then show ?thesis by (simp add: mod_eq_0_iff_dvd)
qed

lemma days_before_year_Suc:
  "days_before_year (y + 1) = days_before_year y + days_in_year y"
proof -
  define p4 p100 p400 where "p4 = y div 4" and "p100 = y div 100" and "p400 = y div 400"
  define q4 q100 q400 where "q4 = (y - 1) div 4" and "q100 = (y - 1) div 100"
    and "q400 = (y - 1) div 400"
  have d4: "p4 = q4 + (if y mod 4 = 0 then 1 else 0)"
    unfolding p4_def q4_def by (rule div_pred) simp
  have d100: "p100 = q100 + (if y mod 100 = 0 then 1 else 0)"
    unfolding p100_def q100_def by (rule div_pred) simp
  have d400: "p400 = q400 + (if y mod 400 = 0 then 1 else 0)"
    unfolding p400_def q400_def by (rule div_pred) simp
  have e1: "days_before_year (y + 1) = y * 365 + p4 - p100 + p400"
    by (simp add: days_before_year_def p4_def p100_def p400_def)
  have e2: "days_before_year y = (y - 1) * 365 + q4 - q100 + q400"
    by (simp add: days_before_year_def Let_def q4_def q100_def q400_def)
  consider (a) "y mod 4 \<noteq> 0" | (b) "y mod 4 = 0" "y mod 100 \<noteq> 0"
    | (c) "y mod 100 = 0" "y mod 400 \<noteq> 0" | (d) "y mod 400 = 0"
    using mod_100_imp_4 [of y] by fastforce
  then show ?thesis
  proof cases
    case a
    then have m: "y mod 100 \<noteq> 0" "y mod 400 \<noteq> 0"
      using mod_100_imp_4 [of y] mod_400_imp_100 [of y] by auto
    from a m have "days_in_year y = 365"
      by (simp add: days_in_year_def is_leap_def)
    moreover from a m d4 d100 d400 have "p4 = q4" "p100 = q100" "p400 = q400"
      by simp_all
    ultimately show ?thesis unfolding e1 e2 by (simp add: algebra_simps)
  next
    case b
    then have m: "y mod 400 \<noteq> 0"
      using mod_400_imp_100 [of y] by auto
    from b m have "days_in_year y = 366"
      by (simp add: days_in_year_def is_leap_def)
    moreover from b m d4 d100 d400 have "p4 = q4 + 1" "p100 = q100" "p400 = q400"
      by simp_all
    ultimately show ?thesis unfolding e1 e2 by (simp add: algebra_simps)
  next
    case c
    then have m: "y mod 4 = 0"
      using mod_100_imp_4 [of y] by auto
    from c m have "days_in_year y = 365"
      by (simp add: days_in_year_def is_leap_def)
    moreover from c m d4 d100 d400 have "p4 = q4 + 1" "p100 = q100 + 1" "p400 = q400"
      by simp_all
    ultimately show ?thesis unfolding e1 e2 by (simp add: algebra_simps)
  next
    case d
    then have m: "y mod 100 = 0" "y mod 4 = 0"
      using mod_100_imp_4 [of y] mod_400_imp_100 [of y] by auto
    from d m have "days_in_year y = 366"
      by (simp add: days_in_year_def is_leap_def)
    moreover from d m d4 d100 d400 have "p4 = q4 + 1" "p100 = q100 + 1" "p400 = q400 + 1"
      by simp_all
    ultimately show ?thesis unfolding e1 e2 by (simp add: algebra_simps)
  qed
qed

lemma days_before_year_mono_aux:
  "days_before_year y + 365 * int k \<le> days_before_year (y + int k)"
proof (induction k)
  case 0
  then show ?case by simp
next
  case (Suc k)
  have step: "days_before_year (y + int k + 1)
      = days_before_year (y + int k) + days_in_year (y + int k)"
    by (rule days_before_year_Suc)
  have ge: "365 \<le> days_in_year (y + int k)"
    by (simp add: days_in_year_def)
  have e: "y + int (Suc k) = y + int k + 1"
    by simp
  show ?case
    unfolding e using step ge Suc by simp
qed

lemma days_before_year_next:
  assumes "y1 < y2"
  shows "days_before_year y1 + days_in_year y1 \<le> days_before_year y2"
proof -
  define k where "k = nat (y2 - (y1 + 1))"
  with assms have k: "y2 = (y1 + 1) + int k"
    by simp
  from days_before_year_mono_aux [of "y1 + 1" k] days_before_year_Suc [of y1] k
  show ?thesis by simp
qed

lemma days_before_year_mono: "y1 \<le> y2 \<Longrightarrow> days_before_year y1 \<le> days_before_year y2"
  using days_before_year_next [of y1 y2] by (cases "y1 = y2") (auto simp: days_in_year_def split: if_splits)

subsection \<open>Days before a month; ordinals grow with dates\<close>

lemma month_cases:
  fixes m :: int
  assumes "1 \<le> m" "m \<le> 12"
  shows "m = 1 \<or> m = 2 \<or> m = 3 \<or> m = 4 \<or> m = 5 \<or> m = 6 \<or> m = 7 \<or> m = 8 \<or> m = 9 \<or> m = 10
         \<or> m = 11 \<or> m = 12"
  using assms by arith

lemma days_in_month_bounds:
  assumes "1 \<le> m" "m \<le> 12"
  shows "28 \<le> days_in_month y m \<and> days_in_month y m \<le> 31"
  using month_cases [OF assms]
  by (elim disjE) (simp_all add: days_in_month_def DAYS_IN_MONTH_def)

lemma days_before_month_nonneg:
  assumes "1 \<le> m" "m \<le> 12"
  shows "0 \<le> days_before_month y m"
  using month_cases [OF assms]
  by (elim disjE) (simp_all add: days_before_month_def DAYS_BEFORE_MONTH_def)

lemma days_before_month_Suc:
  assumes "1 \<le> m" "m \<le> 11"
  shows "days_before_month y (m + 1) = days_before_month y m + days_in_month y m"
proof -
  from assms have "m = 1 \<or> m = 2 \<or> m = 3 \<or> m = 4 \<or> m = 5 \<or> m = 6 \<or> m = 7 \<or> m = 8 \<or> m = 9
      \<or> m = 10 \<or> m = 11"
    by arith
  then show ?thesis
    by (elim disjE)
       (simp_all add: days_before_month_def days_in_month_def DAYS_BEFORE_MONTH_def
          DAYS_IN_MONTH_def)
qed

lemma days_before_month_last:
  "days_before_month y 12 + days_in_month y 12 = days_in_year y"
  by (simp add: days_before_month_def days_in_month_def DAYS_BEFORE_MONTH_def
        DAYS_IN_MONTH_def days_in_year_def)

lemma days_before_month_mono_aux:
  assumes "1 \<le> m"
  shows "m + int k \<le> 12 \<Longrightarrow> days_before_month y m \<le> days_before_month y (m + int k)"
proof (induction k)
  case 0
  then show ?case by simp
next
  case (Suc k)
  then have le: "m + int k \<le> 11" by simp
  with assms have "days_before_month y (m + int k + 1)
      = days_before_month y (m + int k) + days_in_month y (m + int k)"
    by (intro days_before_month_Suc) simp_all
  moreover have "0 \<le> days_in_month y (m + int k)"
    using days_in_month_bounds [of "m + int k" y] assms le by simp
  moreover have e: "m + int (Suc k) = m + int k + 1" by simp
  ultimately show ?case unfolding e using Suc le by simp
qed

lemma days_before_month_next:
  assumes "1 \<le> m1" "m1 < m2" "m2 \<le> 12"
  shows "days_before_month y m1 + days_in_month y m1 \<le> days_before_month y m2"
proof -
  define k where "k = nat (m2 - (m1 + 1))"
  with assms have k: "m2 = (m1 + 1) + int k" by simp
  from assms have "days_before_month y (m1 + 1) = days_before_month y m1 + days_in_month y m1"
    by (intro days_before_month_Suc) simp_all
  moreover from days_before_month_mono_aux [of "m1 + 1" k y] assms k
  have "days_before_month y (m1 + 1) \<le> days_before_month y m2" by simp
  ultimately show ?thesis by simp
qed

lemma day_of_year_le:
  assumes "1 \<le> m" "m \<le> 12"
  shows "days_before_month y m + days_in_month y m \<le> days_in_year y"
proof (cases "m = 12")
  case True
  then show ?thesis by (simp add: days_before_month_last)
next
  case False
  with assms have "days_before_month y m + days_in_month y m \<le> days_before_month y 12"
    by (intro days_before_month_next) simp_all
  moreover have "0 \<le> days_in_month y 12"
    using days_in_month_bounds [of 12 y] by simp
  ultimately show ?thesis using days_before_month_last [of y] by simp
qed

lemma toordinal_strict_mono:
  assumes "valid_date a" "valid_date b" "date_lt a b"
  shows "toordinal a < toordinal b"
proof -
  from assms(1) have a: "1 \<le> month a" "month a \<le> 12" "1 \<le> day a"
      "day a \<le> days_in_month (year a) (month a)"
    by (simp_all add: valid_date_def)
  from assms(2) have b: "1 \<le> month b" "month b \<le> 12" "1 \<le> day b"
      "day b \<le> days_in_month (year b) (month b)"
    by (simp_all add: valid_date_def)
  note nb = days_before_month_nonneg [OF b(1,2), of "year b"]
  from assms(3) consider (y) "year a < year b"
    | (m) "year a = year b" "month a < month b"
    | (d) "year a = year b" "month a = month b" "day a < day b"
    by (auto simp: date_lt_def)
  then show ?thesis
  proof cases
    case y
    from day_of_year_le [OF a(1,2), of "year a"] a(4)
    have "days_before_month (year a) (month a) + day a \<le> days_in_year (year a)" by simp
    with days_before_year_next [OF y] nb b(3) show ?thesis
      by (simp add: toordinal_def ymd2ord_def)
  next
    case m
    from days_before_month_next [OF a(1) m(2) b(2), of "year a"] a(4) b(3) m(1) show ?thesis
      by (simp add: toordinal_def ymd2ord_def)
  next
    case d
    then show ?thesis by (simp add: toordinal_def ymd2ord_def)
  qed
qed


subsection \<open>The cycles of an ordinal\<close>

lemma case_prod_if:
  "(case (if Q then (a, b) else (c, d)) of (m, d') \<Rightarrow> f m d') = (if Q then f a b else f c d)"
  by simp

lemma ord2ymd_alt:
  "ord2ymd n =
     (case year_split n of
        (n400, n100, n4, n1, r) \<Rightarrow>
          if n1 = 4 \<or> n100 = 4 then (n400 * 400 + 1 + n100 * 100 + n4 * 4 + n1 - 1, 12, 31)
          else (case month_day r (n1 = 3 \<and> (n4 \<noteq> 24 \<or> n100 = 3)) of
                  (m, d) \<Rightarrow> (n400 * 400 + 1 + n100 * 100 + n4 * 4 + n1, m, d)))"
  unfolding ord2ymd_def year_split_def month_day_def Let_def prod.case case_prod_if
  by (rule refl)

lemma divmod_facts:
  fixes x k :: int
  assumes "0 < k"
  shows "x = k * (x div k) + x mod k" "0 \<le> x mod k" "x mod k < k"
  using assms by simp_all

lemma year_split_facts:
  assumes "1 \<le> n" "year_split n = (a, b, c, e, r)"
  shows "n - 1 = 146097 * a + 36524 * b + 1461 * c + 365 * e + r"
    and "0 \<le> a" and "0 \<le> b" and "b \<le> 4" and "0 \<le> c" and "c \<le> 24"
    and "0 \<le> e" and "e \<le> 4" and "0 \<le> r" and "r \<le> 364"
    and "b = 4 \<Longrightarrow> c = 0 \<and> e = 0 \<and> r = 0"
    and "e = 4 \<Longrightarrow> r = 0 \<and> c \<le> 23"
proof -
  define r1 where "r1 = (n - 1) mod 146097"
  define r2 where "r2 = r1 mod 36524"
  define r3 where "r3 = r2 mod 1461"
  from assms(2) have "((n - 1) div 146097, r1 div 36524, r2 div 1461, r3 div 365, r3 mod 365)
      = (a, b, c, e, r)"
    unfolding year_split_def Let_def r1_def r2_def r3_def .
  then have a: "a = (n - 1) div 146097" and b: "b = r1 div 36524"
    and c: "c = r2 div 1461" and e: "e = r3 div 365" and r: "r = r3 mod 365"
    by (simp_all only: prod.inject)
  have 1: "n - 1 = 146097 * a + r1" "0 \<le> r1" "r1 < 146097"
    unfolding a r1_def by (rule divmod_facts, simp)+
  have 2: "r1 = 36524 * b + r2" "0 \<le> r2" "r2 < 36524"
    unfolding b r2_def by (rule divmod_facts, simp)+
  have 3: "r2 = 1461 * c + r3" "0 \<le> r3" "r3 < 1461"
    unfolding c r3_def by (rule divmod_facts, simp)+
  have 4: "r3 = 365 * e + r" "0 \<le> r" "r < 365"
    unfolding e r by (rule divmod_facts, simp)+
  from 1 2 3 4 show "n - 1 = 146097 * a + 36524 * b + 1461 * c + 365 * e + r" by linarith
  from 1 2 3 4 assms(1) show "0 \<le> a" by linarith
  from 1 2 3 4 show "0 \<le> b" by linarith
  from 1 2 3 4 show "b \<le> 4" by linarith
  from 1 2 3 4 show "0 \<le> c" by linarith
  from 1 2 3 4 show "c \<le> 24" by linarith
  from 1 2 3 4 show "0 \<le> e" by linarith
  from 1 2 3 4 show "e \<le> 4" by linarith
  from 4 show "0 \<le> r" by linarith
  from 4 show "r \<le> 364" by linarith
  have cge: "0 \<le> c" and ege: "0 \<le> e" using 1 2 3 4 by linarith+
  show "c = 0 \<and> e = 0 \<and> r = 0" if "b = 4"
    using that 1 2 3 4 cge ege by (intro conjI) linarith+
  show "r = 0 \<and> c \<le> 23" if "e = 4"
    using that 1 2 3 4 cge ege by (intro conjI) linarith+
qed

subsection \<open>Closed forms within a 400-year cycle\<close>

lemma days_before_year_formula:
  assumes "0 \<le> b" "b \<le> 3" "0 \<le> c" "c \<le> 24" "0 \<le> e" "e \<le> 3"
  shows "days_before_year (400 * a + 100 * b + 4 * c + e + 1)
           = 146097 * a + 36524 * b + 1461 * c + 365 * e"
proof -
  define y1 where "y1 = 400 * a + 100 * b + 4 * c + e"
  have "y1 = 4 * (100 * a + 25 * b + c) + e"
    by (simp add: y1_def)
  from int_div_pos_eq [OF this] assms have q4: "y1 div 4 = 100 * a + 25 * b + c"
    by simp
  have "y1 = 100 * (4 * a + b) + (4 * c + e)"
    by (simp add: y1_def)
  from int_div_pos_eq [OF this] assms have q100: "y1 div 100 = 4 * a + b"
    by simp
  have "y1 = 400 * a + (100 * b + 4 * c + e)"
    by (simp add: y1_def)
  from int_div_pos_eq [OF this] assms have q400: "y1 div 400 = a"
    by simp
  have "days_before_year (y1 + 1) = y1 * 365 + y1 div 4 - y1 div 100 + y1 div 400"
    by (simp add: days_before_year_def)
  then have "days_before_year (y1 + 1) = 146097 * a + 36524 * b + 1461 * c + 365 * e"
    unfolding q4 q100 q400 by (simp add: y1_def)
  then show ?thesis by (simp add: y1_def)
qed

lemma is_leap_formula:
  assumes "0 \<le> b" "b \<le> 3" "0 \<le> c" "c \<le> 24" "0 \<le> e" "e \<le> 3"
  shows "is_leap (400 * a + 100 * b + 4 * c + e + 1) = (e = 3 \<and> (c \<noteq> 24 \<or> b = 3))"
proof -
  define y where "y = 400 * a + 100 * b + 4 * c + e + 1"
  have m4: "(y mod 4 = 0) = (e = 3)"
  proof (cases "e = 3")
    case True
    then have "y = 4 * (100 * a + 25 * b + c + 1) + 0" by (simp add: y_def)
    from int_mod_pos_eq [OF this] True show ?thesis by simp
  next
    case False
    have "y = 4 * (100 * a + 25 * b + c) + (e + 1)" by (simp add: y_def)
    from int_mod_pos_eq [OF this] False assms show ?thesis by simp
  qed
  have m100: "(y mod 100 = 0) = (c = 24 \<and> e = 3)"
  proof (cases "c = 24 \<and> e = 3")
    case True
    then have "y = 100 * (4 * a + b + 1) + 0" by (simp add: y_def)
    from int_mod_pos_eq [OF this] True show ?thesis by simp
  next
    case False
    with assms have lt: "4 * c + e + 1 < 100" by linarith
    have "y = 100 * (4 * a + b) + (4 * c + e + 1)" by (simp add: y_def)
    from int_mod_pos_eq [OF this] lt False assms show ?thesis by simp
  qed
  have m400: "(y mod 400 = 0) = (b = 3 \<and> c = 24 \<and> e = 3)"
  proof (cases "b = 3 \<and> c = 24 \<and> e = 3")
    case True
    then have "y = 400 * (a + 1) + 0" by (simp add: y_def)
    from int_mod_pos_eq [OF this] True show ?thesis by simp
  next
    case False
    with assms have lt: "100 * b + 4 * c + e + 1 < 400" by linarith
    have "y = 400 * a + (100 * b + 4 * c + e + 1)" by (simp add: y_def)
    from int_mod_pos_eq [OF this] lt False assms show ?thesis by simp
  qed
  have "is_leap y = (e = 3 \<and> (c \<noteq> 24 \<or> b = 3))"
    unfolding is_leap_def m4 m100 m400 by blast
  then show ?thesis by (simp add: y_def)
qed

subsection \<open>Month and day from the day of the year\<close>

lemma month_day_facts:
  assumes "0 \<le> r" "r \<le> 364" "month_day r leap = (m, d)"
  shows "1 \<le> m \<and> m \<le> 12 \<and> 1 \<le> d \<and>
         d \<le> DAYS_IN_MONTH ! nat m + (if m = 2 \<and> leap then 1 else 0) \<and>
         DAYS_BEFORE_MONTH ! nat m + (if m > 2 \<and> leap then 1 else 0) + d = r + 1"
proof -
  define m0 where "m0 = (r + 50) div 32"
  have "r + 50 = 32 * m0 + (r + 50) mod 32" "0 \<le> (r + 50) mod 32" "(r + 50) mod 32 < 32"
    unfolding m0_def by (rule divmod_facts, simp)+
  then have lo: "32 * m0 \<le> r + 50" and hi: "r + 50 < 32 * m0 + 32"
    by linarith+
  from lo hi assms(1,2) have "1 \<le> m0" "m0 \<le> 12"
    by linarith+
  note cases = month_cases [OF this]
  from assms(3) have md:
    "(if DAYS_BEFORE_MONTH ! nat m0 + (if m0 > 2 \<and> leap then 1 else 0) > r
      then (m0 - 1, r - (DAYS_BEFORE_MONTH ! nat m0 + (if m0 > 2 \<and> leap then 1 else 0)
              - (DAYS_IN_MONTH ! nat (m0 - 1) + (if m0 - 1 = 2 \<and> leap then 1 else 0))) + 1)
      else (m0, r - (DAYS_BEFORE_MONTH ! nat m0 + (if m0 > 2 \<and> leap then 1 else 0)) + 1))
     = (m, d)"
    unfolding month_day_def Let_def m0_def .
  from cases show ?thesis
  proof (elim disjE)
    assume "m0 = 1"
    with md lo hi assms(1,2) show ?thesis
      by (auto simp: DAYS_BEFORE_MONTH_def DAYS_IN_MONTH_def split: if_splits)
  next
    assume "m0 = 2"
    with md lo hi assms(1,2) show ?thesis
      by (auto simp: DAYS_BEFORE_MONTH_def DAYS_IN_MONTH_def split: if_splits)
  next
    assume "m0 = 3"
    with md lo hi assms(1,2) show ?thesis
      by (auto simp: DAYS_BEFORE_MONTH_def DAYS_IN_MONTH_def split: if_splits)
  next
    assume "m0 = 4"
    with md lo hi assms(1,2) show ?thesis
      by (auto simp: DAYS_BEFORE_MONTH_def DAYS_IN_MONTH_def split: if_splits)
  next
    assume "m0 = 5"
    with md lo hi assms(1,2) show ?thesis
      by (auto simp: DAYS_BEFORE_MONTH_def DAYS_IN_MONTH_def split: if_splits)
  next
    assume "m0 = 6"
    with md lo hi assms(1,2) show ?thesis
      by (auto simp: DAYS_BEFORE_MONTH_def DAYS_IN_MONTH_def split: if_splits)
  next
    assume "m0 = 7"
    with md lo hi assms(1,2) show ?thesis
      by (auto simp: DAYS_BEFORE_MONTH_def DAYS_IN_MONTH_def split: if_splits)
  next
    assume "m0 = 8"
    with md lo hi assms(1,2) show ?thesis
      by (auto simp: DAYS_BEFORE_MONTH_def DAYS_IN_MONTH_def split: if_splits)
  next
    assume "m0 = 9"
    with md lo hi assms(1,2) show ?thesis
      by (auto simp: DAYS_BEFORE_MONTH_def DAYS_IN_MONTH_def split: if_splits)
  next
    assume "m0 = 10"
    with md lo hi assms(1,2) show ?thesis
      by (auto simp: DAYS_BEFORE_MONTH_def DAYS_IN_MONTH_def split: if_splits)
  next
    assume "m0 = 11"
    with md lo hi assms(1,2) show ?thesis
      by (auto simp: DAYS_BEFORE_MONTH_def DAYS_IN_MONTH_def split: if_splits)
  next
    assume "m0 = 12"
    with md lo hi assms(1,2) show ?thesis
      by (auto simp: DAYS_BEFORE_MONTH_def DAYS_IN_MONTH_def split: if_splits)
  qed
qed

subsection \<open>From an ordinal and back\<close>

lemma days_in_month_tab:
  "days_in_month y m = DAYS_IN_MONTH ! nat m + (if m = 2 \<and> is_leap y then 1 else 0)"
  by (simp add: days_in_month_def DAYS_IN_MONTH_def)

text \<open>The last day of a leap year, which the library treats apart.\<close>

lemma fromordinal_edge:
  assumes "0 \<le> b" "b \<le> 3" "0 \<le> c" "c \<le> 24" "c \<noteq> 24 \<or> b = 3" "0 \<le> a"
    and "n - 1 = 146097 * a + 36524 * b + 1461 * c + 1460"
    and "d = \<lparr>year = 400 * a + 100 * b + 4 * c + 3 + 1, month = 12, day = 31\<rparr>"
  shows "toordinal d = n \<and> 1 \<le> year d \<and> 1 \<le> month d \<and> month d \<le> 12 \<and> 1 \<le> day d \<and>
         day d \<le> days_in_month (year d) (month d)"
proof -
  have three: "(0::int) \<le> 3" "(3::int) \<le> 3" by simp_all
  from days_before_year_formula [OF assms(1-4) three, of a]
  have dby: "days_before_year (400 * a + 100 * b + 4 * c + 3 + 1)
      = 146097 * a + 36524 * b + 1461 * c + 1095"
    by simp
  from is_leap_formula [OF assms(1-4) three, of a] assms(5)
  have leap: "is_leap (400 * a + 100 * b + 4 * c + 3 + 1)"
    by simp
  from dby leap assms(7) have "toordinal d = n"
    by (simp add: assms(8) toordinal_def ymd2ord_def days_before_month_def
          DAYS_BEFORE_MONTH_def)
  moreover from assms(1,3,6) have "1 \<le> year d"
    by (simp add: assms(8))
  moreover have "day d \<le> days_in_month (year d) (month d)"
    by (simp add: assms(8) days_in_month_def DAYS_IN_MONTH_def)
  ultimately show ?thesis by (simp add: assms(8))
qed

lemma fromordinal_facts:
  assumes "1 \<le> n"
  shows "toordinal (fromordinal n) = n \<and> 1 \<le> year (fromordinal n) \<and>
         1 \<le> month (fromordinal n) \<and> month (fromordinal n) \<le> 12 \<and>
         1 \<le> day (fromordinal n) \<and>
         day (fromordinal n) \<le> days_in_month (year (fromordinal n)) (month (fromordinal n))"
proof -
  obtain a b c e r where ys: "year_split n = (a, b, c, e, r)"
    by (metis prod_cases5)
  note f = year_split_facts [OF assms ys]
  consider (b4) "b = 4" | (e4) "b \<noteq> 4" "e = 4" | (reg) "b \<noteq> 4" "e \<noteq> 4"
    by blast
  then show ?thesis
  proof cases
    case b4
    with f(11) have z: "c = 0" "e = 0" "r = 0" by simp_all
    have d: "fromordinal n = \<lparr>year = 400 * a + 100 * 3 + 4 * 24 + 3 + 1, month = 12, day = 31\<rparr>"
      by (simp add: fromordinal_def ord2ymd_alt ys b4 z)
    from f(1) b4 z have n: "n - 1 = 146097 * a + 36524 * 3 + 1461 * 24 + 1460"
      by simp
    show ?thesis
      by (rule fromordinal_edge [OF _ _ _ _ _ f(2) n d]) simp_all
  next
    case e4
    with f(12) have z: "r = 0" "c \<le> 23" by simp_all
    from e4 f(4) have b3: "b \<le> 3" by simp
    have d: "fromordinal n = \<lparr>year = 400 * a + 100 * b + 4 * c + 3 + 1, month = 12, day = 31\<rparr>"
      by (simp add: fromordinal_def ord2ymd_alt ys e4 z)
    from f(1) e4 z have n: "n - 1 = 146097 * a + 36524 * b + 1461 * c + 1460"
      by simp
    from z(2) have c: "c \<le> 24" "c \<noteq> 24 \<or> b = 3" by simp_all
    show ?thesis
      by (rule fromordinal_edge [OF f(3) b3 f(5) c f(2) n d])
  next
    case reg
    with f(4,8) have b3: "b \<le> 3" and e3: "e \<le> 3" by simp_all
    define leap where "leap = (e = 3 \<and> (c \<noteq> 24 \<or> b = 3))"
    obtain m d where md: "month_day r leap = (m, d)"
      by (metis surj_pair)
    note g = month_day_facts [OF f(9,10) md]
    define y where "y = 400 * a + 100 * b + 4 * c + e + 1"
    have d: "fromordinal n = \<lparr>year = y, month = m, day = d\<rparr>"
      using reg md by (simp add: fromordinal_def ord2ymd_alt ys leap_def y_def)
    from days_before_year_formula [OF f(3) b3 f(5,6,7) e3, of a]
    have dby: "days_before_year y = 146097 * a + 36524 * b + 1461 * c + 365 * e"
      by (simp add: y_def)
    from is_leap_formula [OF f(3) b3 f(5,6,7) e3, of a]
    have il: "is_leap y = leap"
      by (simp add: y_def leap_def)
    from g have dbm: "days_before_month y m + d = r + 1"
      by (simp add: days_before_month_def il)
    from g have dim: "d \<le> days_in_month y m"
      by (simp add: days_in_month_tab il)
    from dby dbm f(1) have "toordinal (fromordinal n) = n"
      by (simp add: d toordinal_def ymd2ord_def)
    moreover from f(2,3,5,7) have "1 \<le> y"
      by (simp add: y_def)
    ultimately show ?thesis using g dim by (simp add: d)
  qed
qed

subsection \<open>Ordinals and dates correspond\<close>

lemma date_lt_total: "date_lt a b \<or> a = b \<or> date_lt b a"
  by (cases a; cases b) (auto simp: date_lt_def)

lemma toordinal_lower:
  assumes "1 \<le> year d" "1 \<le> month d" "month d \<le> 12" "1 \<le> day d"
  shows "days_before_year (year d) + 1 \<le> toordinal d"
  using days_before_month_nonneg [OF assms(2,3), of "year d"] assms(4)
  by (simp add: toordinal_def ymd2ord_def)

lemma days_before_year_1: "days_before_year 1 = 0"
  by (simp add: days_before_year_def)

lemma days_before_year_10000: "days_before_year 10000 = 3652059"
  by (simp add: days_before_year_def)

lemma toordinal_bounds:
  assumes "valid_date d"
  shows "1 \<le> toordinal d \<and> toordinal d \<le> 3652059"
proof -
  from assms have v: "1 \<le> year d" "year d \<le> 9999" "1 \<le> month d" "month d \<le> 12"
      "1 \<le> day d" "day d \<le> days_in_month (year d) (month d)"
    by (simp_all add: valid_date_def)
  from days_before_year_mono [OF v(1)] toordinal_lower [OF v(1,3,4,5)]
  have lo: "1 \<le> toordinal d"
    by (simp add: days_before_year_1)
  from day_of_year_le [OF v(3,4), of "year d"] v(6)
  have "toordinal d \<le> days_before_year (year d) + days_in_year (year d)"
    by (simp add: toordinal_def ymd2ord_def)
  also from v(2) have "\<dots> \<le> days_before_year 10000"
    by (intro days_before_year_next) simp
  finally show ?thesis using lo by (simp add: days_before_year_10000)
qed

lemma fromordinal_valid:
  assumes "1 \<le> n" "n \<le> 3652059"
  shows "valid_date (fromordinal n)"
proof -
  note f = fromordinal_facts [OF assms(1)]
  from f have v: "1 \<le> year (fromordinal n)" "1 \<le> month (fromordinal n)"
      "month (fromordinal n) \<le> 12" "1 \<le> day (fromordinal n)"
    by simp_all
  have "year (fromordinal n) \<le> 9999"
  proof (rule ccontr)
    assume "\<not> year (fromordinal n) \<le> 9999"
    then have "10000 \<le> year (fromordinal n)" by simp
    from days_before_year_mono [OF this] toordinal_lower [OF v] f assms(2) show False
      by (simp add: days_before_year_10000)
  qed
  with f show ?thesis by (simp add: valid_date_def)
qed


lemma toordinal_inj:
  assumes "valid_date a" "valid_date b" "toordinal a = toordinal b"
  shows "a = b"
  using date_lt_total [of a b] toordinal_strict_mono [OF assms(1,2)]
    toordinal_strict_mono [OF assms(2,1)] assms(3)
  by auto

lemma fromordinal_toordinal:
  assumes "valid_date d"
  shows "fromordinal (toordinal d) = d"
proof -
  note b = toordinal_bounds [OF assms]
  from b have "valid_date (fromordinal (toordinal d))"
    by (intro fromordinal_valid) simp_all
  moreover from b fromordinal_facts [of "toordinal d"]
  have "toordinal (fromordinal (toordinal d)) = toordinal d" by simp
  ultimately show ?thesis using assms by (intro toordinal_inj)
qed

subsection \<open>Decimal text of the year\<close>









subsection \<open>ISO dates parse back\<close>






subsection \<open>Dates of a range ascend\<close>





section \<open>The concrete inputs, evaluated\<close>

lemma demo_single_absent:
  "fst (get_json_for_date demo_env empty_state None (FBool False) (FBool False))
     = Inr (Jsonify (served ''1995-06-18''))"
  by code_simp

lemma demo_single_explicit_18:
  "fst (get_json_for_date demo_env empty_state (Some ''1995-06-18'') (FBool False) (FBool False))
     = Inr (Jsonify (served ''1995-06-18''))"
  by code_simp

lemma demo_single_explicit_17:
  "fst (get_json_for_date demo_env empty_state (Some ''1995-06-17'') (FBool False) (FBool False))
     = Inr (Jsonify (served ''1995-06-17''))"
  by code_simp

lemma demo_single_explicit_17_log:
  "upstream_log (snd (get_json_for_date demo_env empty_state (Some ''1995-06-17'') (FBool False)
      (FBool False)))
     = [(DtDate \<lparr>year = 1995, month = 6, day = 17\<rparr>, False, FBool False)]"
  by code_simp

lemma demo_random_2:
  "fst (get_json_for_random_dates demo_env empty_state 2 (FBool False) (FBool False))
     = Inr [served ''1995-06-18'', served ''1995-06-17'']"
  by code_simp

lemma demo_random_1:
  "fst (get_json_for_random_dates demo_env empty_state 1 (FBool False) (FBool False))
     = Inr [served ''1995-06-18'']"
  by code_simp

lemma demo_range_all:
  "fst (get_json_for_date_range demo_env empty_state ''1995-06-16'' None (FBool False)
          (FBool False))
     = Inr [served ''1995-06-16'', served ''1995-06-17'', served ''1995-06-18'']"
  by code_simp


lemma demo_skew_random:
  "fst (get_json_for_random_dates skew_env empty_state 2 (FBool False) (FBool False))
     = Inr [served ''1995-06-17'', served ''1995-06-17'']"
  by code_simp

lemma demo_skew_random_log:
  "upstream_log (snd (get_json_for_random_dates skew_env empty_state 2 (FBool False)
      (FBool False)))
     = [(DtDate \<lparr>year = 1995, month = 6, day = 18\<rparr>, True, FBool False),
        (DtDate \<lparr>year = 1995, month = 6, day = 17\<rparr>, False, FBool False)]"
  by code_simp

lemma demo_skew_range:
  "fst (get_json_for_date_range skew_env empty_state ''1995-06-17'' (Some ''1995-06-18'')
          (FBool False) (FBool False))
     = Inr [served ''1995-06-17'']"
  by code_simp

lemma demo_record_date_18: "record_date (served ''1995-06-18'') = Some demo_today"
  by code_simp

lemma demo_key_18: "make_key demo_today (FBool False) (FBool False) = ''1995y6m18dFalseFalse''"
  by code_simp

lemma get_json_for_random_dates_alt:
  "get_json_for_random_dates e st n c t =
     (if n > 100 \<or> n \<le> 0
      then (Inl (ValueError ''Count must be positive and cannot exceed 100''), st)
      else (Inr (fst (random_loop e c t n (toordinal (today_local e))
                   (shuffle e [toordinal \<lparr>year = 1995, month = 6, day = 16\<rparr>..
                               toordinal (today_local e)]) st [])),
            snd (random_loop e c t n (toordinal (today_local e))
                   (shuffle e [toordinal \<lparr>year = 1995, month = 6, day = 16\<rparr>..
                               toordinal (today_local e)]) st [])))"
  by (simp add: get_json_for_random_dates_def Let_def case_prod_beta)

section \<open>Cache-key convergence (C1)\<close>

text \<open>
  C1. \<^verbatim>\<open>_get_json_for_date\<close> stores the record it returns under the key made from the
  record's own date, whatever date was asked for. So a request without a date whose
  record is dated X and a request with an explicit date whose record is dated X, with
  the same flags, both leave their record in the cache entry of X.
\<close>

theorem cache_key_convergence:
  assumes "get_json_for_date e1 s1 None c t = (Inr (Jsonify r1), s1')"
      and "get_json_for_date e2 s2 (Some xs) c t = (Inr (Jsonify r2), s2')"
      and "record_date r1 = Some X" and "record_date r2 = Some X"
  shows "RESULTS_DICT s1' (make_key X c t) = Some r1 \<and>
         RESULTS_DICT s2' (make_key X c t) = Some r2"
proof -
  from get_json_for_date_Jsonify [OF assms(1)] assms(3)
  have 1: "RESULTS_DICT s1' (make_key X c t) = Some r1"
    by (auto simp: record_date_def)
  from get_json_for_date_Jsonify [OF assms(2)] assms(4)
  have 2: "RESULTS_DICT s2' (make_key X c t) = Some r2"
    by (auto simp: record_date_def)
  from 1 2 show ?thesis ..
qed

theorem cache_key_convergence_witness:
  "fst (get_json_for_date demo_env empty_state None (FBool False) (FBool False))
     = Inr (Jsonify (served ''1995-06-18'')) \<and>
   fst (get_json_for_date demo_env empty_state (Some ''1995-06-18'') (FBool False) (FBool False))
     = Inr (Jsonify (served ''1995-06-18'')) \<and>
   record_date (served ''1995-06-18'') = Some demo_today \<and>
   make_key demo_today (FBool False) (FBool False) = ''1995y6m18dFalseFalse'' \<and>
   RESULTS_DICT (snd (get_json_for_date demo_env empty_state None (FBool False) (FBool False)))
     ''1995y6m18dFalseFalse'' = Some (served ''1995-06-18'') \<and>
   RESULTS_DICT (snd (get_json_for_date demo_env empty_state (Some ''1995-06-18'') (FBool False)
     (FBool False))) ''1995y6m18dFalseFalse'' = Some (served ''1995-06-18'')"
proof -
  let ?a = "get_json_for_date demo_env empty_state None (FBool False) (FBool False)"
  let ?b = "get_json_for_date demo_env empty_state (Some ''1995-06-18'') (FBool False)
     (FBool False)"
  note a = demo_single_absent and b = demo_single_explicit_18
  note d = demo_record_date_18 and k = demo_key_18
  from a have a': "?a = (Inr (Jsonify (served ''1995-06-18'')), snd ?a)"
    by (metis prod.collapse)
  from b have b': "?b = (Inr (Jsonify (served ''1995-06-18'')), snd ?b)"
    by (metis prod.collapse)
  from cache_key_convergence [OF a' b' d d] a b d k show ?thesis by simp
qed

section \<open>Idempotence of single-date resolution (C2)\<close>

text \<open>
  C2. When \<^verbatim>\<open>_get_json_for_date\<close> has returned a record for an explicit date and that
  record carries the date asked for, a second call for the same date and flags on the
  same day returns the same record and leaves the state as it was: the cache is
  unchanged and no call to the page parser is added to the log, whatever the parser would
  have answered.
\<close>

theorem resolve_one_idempotent:
  assumes first: "get_json_for_date e st (Some ds) c t = (Inr (Jsonify r), st')"
      and echo: "record_date r = strptime ds"
      and same_day: "today_local e2 = today_local e"
  shows "get_json_for_date e2 st' (Some ds) c t = (Inr (Jsonify r), st')"
proof -
  from get_json_for_date_Jsonify [OF first] obtain s d where
    date: "map_of r ''date'' = Some (JStr s)" and parse: "strptime s = Some d" and
    sv: "map_of r ''service_version'' = Some (JStr SERVICE_VERSION)" and
    cached: "RESULTS_DICT st' (make_key d c t) = Some r"
    by blast
  from echo date parse have ds: "strptime ds = Some d"
    by (simp add: record_date_def)
  then have ne: "ds \<noteq> []"
    by (auto simp: strptime_Nil)
  from get_json_for_date_explicit_valid [OF first ds] validate_date_today [OF same_day, of d]
  have valid: "validate_date e2 d = Inr ()"
    by simp
  from ds ne valid
  have res: "resolve_input_date e2 (Some ds) c t = Inr (DtDate d, False, make_key d c t)"
    by (simp add: resolve_input_date_def)
  from date have r_ne: "r \<noteq> []"
    by auto
  have upd: "st'\<lparr>RESULTS_DICT := (RESULTS_DICT st')(make_key d c t \<mapsto> r)\<rparr> = st'"
    using cached by (simp add: fun_upd_idem)
  show ?thesis
    unfolding get_json_for_date_def
    by (simp add: res cached r_ne dict_set_idem [OF sv] date parse upd Let_def)
qed

theorem resolve_one_idempotent_witness:
  "fst (get_json_for_date demo_env empty_state (Some ''1995-06-17'') (FBool False) (FBool False))
     = Inr (Jsonify (served ''1995-06-17'')) \<and>
   record_date (served ''1995-06-17'') = strptime ''1995-06-17'' \<and>
   today_local broken_env = today_local demo_env \<and>
   get_json_for_date broken_env
     (snd (get_json_for_date demo_env empty_state (Some ''1995-06-17'') (FBool False)
        (FBool False)))
     (Some ''1995-06-17'') (FBool False) (FBool False)
     = (Inr (Jsonify (served ''1995-06-17'')),
        snd (get_json_for_date demo_env empty_state (Some ''1995-06-17'') (FBool False)
          (FBool False))) \<and>
   upstream_log (snd (get_json_for_date demo_env empty_state (Some ''1995-06-17'') (FBool False)
      (FBool False)))
     = [(DtDate \<lparr>year = 1995, month = 6, day = 17\<rparr>, False, FBool False)]"
proof -
  let ?a = "get_json_for_date demo_env empty_state (Some ''1995-06-17'') (FBool False)
     (FBool False)"
  note a = demo_single_explicit_17
  from a have a': "?a = (Inr (Jsonify (served ''1995-06-17'')), snd ?a)"
    by (metis prod.collapse)
  have echo: "record_date (served ''1995-06-17'') = strptime ''1995-06-17''"
    by code_simp
  have day: "today_local broken_env = today_local demo_env"
    by (simp add: broken_env_def)
  from resolve_one_idempotent [OF a' echo day] a echo day demo_single_explicit_17_log
  show ?thesis by simp
qed

section \<open>Date validation (C3)\<close>

text \<open>
  C3. Every date from the first picture's day (1995-06-16) up to today passes
  \<^verbatim>\<open>_validate_date\<close>; every date before the first or after today raises, and the
  message names both bounds: the epoch as \<open>Jun 16, 1995\<close> and today in the same format.
\<close>

theorem validate_date_range:
  "(date_le begin_date d \<and> date_le d (today_local e) \<longrightarrow> validate_date e d = Inr ()) \<and>
   (date_lt d begin_date \<or> date_lt (today_local e) d \<longrightarrow>
      validate_date e d =
        Inl (ValueError (''Date must be between '' @ ''Jun 16, 1995'' @ '' and ''
               @ strftime_b_d_Y (today_local e) @ ''.'')))"
  unfolding validate_date_def Let_def date_le_iff strftime_begin by auto

theorem validate_date_range_witness:
  "validate_date demo_env \<lparr>year = 1995, month = 6, day = 17\<rparr> = Inr () \<and>
   validate_date demo_env \<lparr>year = 1995, month = 6, day = 15\<rparr>
     = Inl (ValueError ''Date must be between Jun 16, 1995 and Jun 18, 1995.'') \<and>
   validate_date demo_env \<lparr>year = 1995, month = 6, day = 19\<rparr>
     = Inl (ValueError ''Date must be between Jun 16, 1995 and Jun 18, 1995.'')"
proof -
  have inside: "date_le begin_date \<lparr>year = 1995, month = 6, day = 17\<rparr> \<and>
      date_le \<lparr>year = 1995, month = 6, day = 17\<rparr> (today_local demo_env)"
    by code_simp
  have before: "date_lt \<lparr>year = 1995, month = 6, day = 15\<rparr> begin_date"
    by code_simp
  have after: "date_lt (today_local demo_env) \<lparr>year = 1995, month = 6, day = 19\<rparr>"
    by code_simp
  have fmt: "strftime_b_d_Y (today_local demo_env) = ''Jun 18, 1995''"
    by code_simp
  from validate_date_range [of "\<lparr>year = 1995, month = 6, day = 17\<rparr>" demo_env] inside
  have 1: "validate_date demo_env \<lparr>year = 1995, month = 6, day = 17\<rparr> = Inr ()"
    by blast
  from validate_date_range [of "\<lparr>year = 1995, month = 6, day = 15\<rparr>" demo_env] before
  have 2: "validate_date demo_env \<lparr>year = 1995, month = 6, day = 15\<rparr>
     = Inl (ValueError ''Date must be between Jun 16, 1995 and Jun 18, 1995.'')"
    unfolding fmt by simp
  from validate_date_range [of "\<lparr>year = 1995, month = 6, day = 19\<rparr>" demo_env] after
  have 3: "validate_date demo_env \<lparr>year = 1995, month = 6, day = 19\<rparr>
     = Inl (ValueError ''Date must be between Jun 16, 1995 and Jun 18, 1995.'')"
    unfolding fmt by simp
  from 1 2 3 show ?thesis by blast
qed

section \<open>Range resolution (C4)\<close>



section \<open>Random-sample resolution (C5)\<close>

text \<open>
  What holds of \<^verbatim>\<open>_get_json_for_random_dates\<close>: a count outside 1..100 raises, a count
  within it gives at most that many records, and the dates the page parser is asked for
  are distinct dates between the first picture's day and today (for a shuffle that
  permutes its input).
\<close>

lemma random_loop_log:
  "\<exists>k \<le> length xs. upstream_log (snd (random_loop e c t n today xs st acc))
      = upstream_log st @ map (\<lambda>x. (DtDate (fromordinal x), x = today, t)) (take k xs)"
proof (induction xs arbitrary: st acc)
  case Nil
  then show ?case by simp
next
  case (Cons x xs)
  let ?st1 = "st\<lparr>upstream_log := upstream_log st @ [(DtDate (fromordinal x), x = today, t)]\<rparr>"
  have later: "\<exists>k \<le> length (x # xs). upstream_log (snd (random_loop e c t n today xs ?st1 acc'))
      = upstream_log st @ map (\<lambda>x. (DtDate (fromordinal x), x = today, t)) (take k (x # xs))"
    for acc'
  proof -
    from Cons.IH [of ?st1 acc'] obtain k where "k \<le> length xs"
      "upstream_log (snd (random_loop e c t n today xs ?st1 acc'))
        = upstream_log ?st1 @ map (\<lambda>x. (DtDate (fromordinal x), x = today, t)) (take k xs)"
      by blast
    then show ?thesis by (intro exI [of _ "Suc k"]) simp
  qed
  have now: "\<exists>k \<le> length (x # xs). upstream_log ?st1
      = upstream_log st @ map (\<lambda>x. (DtDate (fromordinal x), x = today, t)) (take k (x # xs))"
    by (intro exI [of _ "Suc 0"]) simp
  show ?case
    apply (subst random_loop.simps)
    apply (subst apod_handler_split)
    using later now by (simp add: Let_def split: handled.splits)
qed

lemma random_sample_size:
  "(n \<le> 0 \<or> 100 < n \<longrightarrow>
      get_json_for_random_dates e st n c t
        = (Inl (ValueError ''Count must be positive and cannot exceed 100''), st)) \<and>
   (0 < n \<and> n \<le> 100 \<longrightarrow>
      (\<exists>rs. fst (get_json_for_random_dates e st n c t) = Inr rs \<and> int (length rs) \<le> n))"
  using random_loop_length [of "[]" n]
  by (auto simp: get_json_for_random_dates_alt)

lemma random_sample_requests:
  assumes "0 < n" "n \<le> 100" "valid_date (today_local e)"
      and "distinct (shuffle e [toordinal begin_date..toordinal (today_local e)])"
      and "set (shuffle e [toordinal begin_date..toordinal (today_local e)])
             = {toordinal begin_date..toordinal (today_local e)}"
  shows "\<exists>os. upstream_log (snd (get_json_for_random_dates e st n c t))
           = upstream_log st
               @ map (\<lambda>x. (DtDate (fromordinal x), x = toordinal (today_local e), t)) os \<and>
           distinct (map fromordinal os) \<and>
           list_all (\<lambda>x. date_le begin_date (fromordinal x) \<and>
                          date_le (fromordinal x) (today_local e)) os"
proof -
  let ?xs = "shuffle e [toordinal begin_date..toordinal (today_local e)]"
  let ?today = "toordinal (today_local e)"
  have b: "toordinal begin_date = 728460" by code_simp
  have vb: "valid_date begin_date" by code_simp
  from random_loop_log [of ?xs e c t n ?today st "[]"] obtain k where
    log: "upstream_log (snd (random_loop e c t n ?today ?xs st []))
      = upstream_log st @ map (\<lambda>x. (DtDate (fromordinal x), x = ?today, t)) (take k ?xs)"
    by blast
  have sub: "set (take k ?xs) \<subseteq> {toordinal begin_date..?today}"
    using assms(5) set_take_subset [of k ?xs] by simp
  have dist: "distinct (take k ?xs)"
    using assms(4) by simp
  note tb = toordinal_bounds [OF assms(3)]
  have inj: "inj_on fromordinal (set (take k ?xs))"
  proof (rule inj_onI)
    fix x y assume xy: "x \<in> set (take k ?xs)" "y \<in> set (take k ?xs)"
      "fromordinal x = fromordinal y"
    with sub b have "1 \<le> x" "1 \<le> y" by auto
    with fromordinal_facts [of x] fromordinal_facts [of y]
    have "toordinal (fromordinal x) = x" "toordinal (fromordinal y) = y" by blast+
    with xy(3) show "x = y" by metis
  qed
  have rng: "date_le begin_date (fromordinal x) \<and> date_le (fromordinal x) (today_local e)"
    if "x \<in> set (take k ?xs)" for x
  proof -
    from that sub have x: "toordinal begin_date \<le> x" "x \<le> ?today" by auto
    with b tb have r: "1 \<le> x" "x \<le> 3652059" by simp_all
    note vx = fromordinal_valid [OF r]
    from fromordinal_facts [OF r(1)] have tx: "toordinal (fromordinal x) = x" by simp
    have "\<not> date_lt (fromordinal x) begin_date"
      using toordinal_strict_mono [OF vx vb] tx x(1) by auto
    moreover have "\<not> date_lt (today_local e) (fromordinal x)"
      using toordinal_strict_mono [OF assms(3) vx] tx x(2) by auto
    ultimately show ?thesis by (simp add: date_le_iff)
  qed
  from assms(1,2) log have "upstream_log (snd (get_json_for_random_dates e st n c t))
      = upstream_log st @ map (\<lambda>x. (DtDate (fromordinal x), x = ?today, t)) (take k ?xs)"
    by (simp add: get_json_for_random_dates_alt begin_date_def)
  moreover from dist inj have "distinct (map fromordinal (take k ?xs))"
    by (simp add: distinct_map)
  moreover from rng have "list_all (\<lambda>x. date_le begin_date (fromordinal x) \<and>
      date_le (fromordinal x) (today_local e)) (take k ?xs)"
    by (simp add: list_all_iff)
  ultimately show ?thesis by blast
qed

text \<open>
  C5 (the code departs from it). The records' own dates are never compared with the
  dates asked for. With the service's clock a day ahead of the archive, the parser
  answers today's request (made with the default-today flag) with the page of the day
  before; asked for two records, the resolver returns that page twice, once for today
  and once for the day before. The range resolver, given the same parser, drops the
  record whose date disagrees.
\<close>

theorem random_sample_repeats_a_date:
  "fst (get_json_for_random_dates skew_env empty_state 2 (FBool False) (FBool False))
     = Inr [served ''1995-06-17'', served ''1995-06-17''] \<and>
   upstream_log (snd (get_json_for_random_dates skew_env empty_state 2 (FBool False)
      (FBool False)))
     = [(DtDate \<lparr>year = 1995, month = 6, day = 18\<rparr>, True, FBool False),
        (DtDate \<lparr>year = 1995, month = 6, day = 17\<rparr>, False, FBool False)] \<and>
   map record_date [served ''1995-06-17'', served ''1995-06-17'']
     = [Some \<lparr>year = 1995, month = 6, day = 17\<rparr>, Some \<lparr>year = 1995, month = 6, day = 17\<rparr>] \<and>
   fst (get_json_for_date_range skew_env empty_state ''1995-06-17'' (Some ''1995-06-18'')
          (FBool False) (FBool False))
     = Inr [served ''1995-06-17'']"
proof -
  have "map record_date [served ''1995-06-17'', served ''1995-06-17'']
     = [Some \<lparr>year = 1995, month = 6, day = 17\<rparr>, Some \<lparr>year = 1995, month = 6, day = 17\<rparr>]"
    by code_simp
  with demo_skew_random demo_skew_random_log demo_skew_range show ?thesis by blast
qed

section \<open>Random-sample resolution and the cache (C6)\<close>

text \<open>
  C6 as stated fails: with an empty cache and a parser that has a record for every day,
  \<^verbatim>\<open>_get_json_for_random_dates\<close> returns the record of 1995-06-18, and that record is in
  no entry of the cache afterwards.
\<close>

theorem random_sample_not_cached:
  "fst (get_json_for_random_dates demo_env empty_state 1 (FBool False) (FBool False))
     = Inr [served ''1995-06-18''] \<and>
   served ''1995-06-18'' \<notin> ran (RESULTS_DICT
     (snd (get_json_for_random_dates demo_env empty_state 1 (FBool False) (FBool False))))"
proof -
  have "RESULTS_DICT (snd (get_json_for_random_dates demo_env empty_state 1 (FBool False)
     (FBool False))) = Map.empty"
    by (simp add: get_json_for_random_dates_alt random_loop_cache empty_state_def)
  with demo_random_1 show ?thesis by simp
qed

text \<open>
  C6, amended. Random-sample resolution neither reads nor writes the cache: the cache
  after the call is the cache before it, and the result is the same whatever the cache
  holds.
\<close>

theorem random_sample_leaves_cache_alone:
  "RESULTS_DICT (snd (get_json_for_random_dates e st n c t)) = RESULTS_DICT st \<and>
   fst (get_json_for_random_dates e (st\<lparr>RESULTS_DICT := m\<rparr>) n c t)
     = fst (get_json_for_random_dates e st n c t)"
  by (simp add: get_json_for_random_dates_alt random_loop_cache random_loop_cache_indep)

theorem random_sample_leaves_cache_alone_witness:
  "RESULTS_DICT (snd (get_json_for_random_dates demo_env empty_state 2 (FBool False) (FBool False)))
     = RESULTS_DICT empty_state \<and>
   fst (get_json_for_random_dates demo_env
          (empty_state\<lparr>RESULTS_DICT := [''1995y6m18dFalseFalse'' \<mapsto> served ''1995-01-01'']\<rparr>)
          2 (FBool False) (FBool False))
     = fst (get_json_for_random_dates demo_env empty_state 2 (FBool False) (FBool False)) \<and>
   fst (get_json_for_random_dates demo_env empty_state 2 (FBool False) (FBool False))
     = Inr [served ''1995-06-18'', served ''1995-06-17'']"
  using random_sample_leaves_cache_alone [of demo_env empty_state 2 "FBool False" "FBool False"
    "[''1995y6m18dFalseFalse'' \<mapsto> served ''1995-01-01'']"] demo_random_2
  by simp

section \<open>The translation fallback chain (C7)\<close>

text \<open>
  What the code does when the primary provider answers with an empty result: the
  secondary is asked, its translation is cached and returned, and the same text is then
  answered from the cache with no provider contacted.
\<close>

lemma fallback_on_empty_result:
  assumes "txt \<noteq> []" "TRANSLATE_ENABLED e" "TRANSLATE_CACHE st txt = None"
      and "translate_with_libretranslate e txt = Inr v1" "\<not> truthy v1"
      and "translate_with_google e txt = Inr v2" "truthy v2"
      and "TRANSLATE_ENABLED e2"
  shows "translate_to_zh e st txt =
           (Inr v2, \<lparr>TRANSLATE_CACHE = (TRANSLATE_CACHE st)(txt \<mapsto> v2),
                     provider_log = provider_log st @ [(LibreTranslate, txt), (Google, txt)]\<rparr>)"
    and "translate_to_zh e2 (snd (translate_to_zh e st txt)) txt
          = (Inr v2, snd (translate_to_zh e st txt))"
  using assms by (auto simp: translate_to_zh_def Let_def)

text \<open>
  C7 (the code departs from it). With the primary provider unreachable and a secondary
  that would translate \<open>hello\<close>, \<^verbatim>\<open>_translate_to_zh\<close> returns \<open>hello\<close> itself: the
  exception of the first call leaves the \<^verbatim>\<open>try\<close> block, so the secondary is never
  contacted and nothing is cached.
\<close>

theorem primary_outage_skips_secondary:
  "translate_with_google outage_env ''hello'' = Inr (JStr ''ni hao'') \<and>
   fst (translate_to_zh outage_env empty_tr_state ''hello'') = Inr (JStr ''hello'') \<and>
   provider_log (snd (translate_to_zh outage_env empty_tr_state ''hello''))
     = [(LibreTranslate, ''hello'')] \<and>
   TRANSLATE_CACHE (snd (translate_to_zh outage_env empty_tr_state ''hello'')) ''hello'' = None"
  by code_simp

section \<open>Degradation and success-only memoization (C8)\<close>



section \<open>The service version (C9)\<close>

text \<open>
  C9. Every record a resolver returns has the field \<open>service_version\<close> with the value
  \<open>v1\<close>: the one record of a single-date resolution, which is also the record left in the
  cache under the key of its date, and each record of a random sample and of a range.
\<close>

theorem service_version_on_every_record:
  "(get_json_for_date e st i c t = (Inr (Jsonify r), st1) \<longrightarrow>
      has_service_version r \<and>
      (\<exists>d. record_date r = Some d \<and> RESULTS_DICT st1 (make_key d c t) = Some r)) \<and>
   (get_json_for_random_dates e st n c t = (Inr rs, st2) \<longrightarrow> list_all has_service_version rs) \<and>
   (get_json_for_date_range e st sd ed c t = (Inr rs', st3) \<longrightarrow>
      list_all has_service_version rs')"
proof (intro conjI impI)
  assume a: "get_json_for_date e st i c t = (Inr (Jsonify r), st1)"
  from get_json_for_date_Jsonify [OF a] show "has_service_version r"
    by (auto simp: has_service_version_def SERVICE_VERSION_def)
  from get_json_for_date_Jsonify [OF a]
  show "\<exists>d. record_date r = Some d \<and> RESULTS_DICT st1 (make_key d c t) = Some r"
    by (auto simp: record_date_def)
next
  assume "get_json_for_random_dates e st n c t = (Inr rs, st2)"
  then have "rs = fst (random_loop e c t n (toordinal (today_local e))
      (shuffle e [toordinal \<lparr>year = 1995, month = 6, day = 16\<rparr>..toordinal (today_local e)])
      st [])"
    by (auto simp: get_json_for_random_dates_alt split: if_splits)
  then show "list_all has_service_version rs"
    by (simp add: random_loop_service_version)
next
  assume "get_json_for_date_range e st sd ed c t = (Inr rs', st3)"
  then obtain today en s where "range_loop e c t today en s st [] = (Inr rs', st3)"
    by (auto simp: get_json_for_date_range_def Let_def
             split: option.splits sum.splits if_splits)
  then show "list_all has_service_version rs'"
    by (rule range_loop_service_version [rotated]) simp
qed

theorem service_version_on_every_record_witness:
  "fst (get_json_for_date demo_env empty_state None (FBool False) (FBool False))
     = Inr (Jsonify (served ''1995-06-18'')) \<and>
   has_service_version (served ''1995-06-18'') \<and>
   record_date (served ''1995-06-18'') = Some demo_today \<and>
   RESULTS_DICT (snd (get_json_for_date demo_env empty_state None (FBool False) (FBool False)))
     (make_key demo_today (FBool False) (FBool False)) = Some (served ''1995-06-18'') \<and>
   fst (get_json_for_random_dates demo_env empty_state 2 (FBool False) (FBool False))
     = Inr [served ''1995-06-18'', served ''1995-06-17''] \<and>
   list_all has_service_version [served ''1995-06-18'', served ''1995-06-17''] \<and>
   fst (get_json_for_date_range demo_env empty_state ''1995-06-16'' None (FBool False)
          (FBool False))
     = Inr [served ''1995-06-16'', served ''1995-06-17'', served ''1995-06-18''] \<and>
   list_all has_service_version
     [served ''1995-06-16'', served ''1995-06-17'', served ''1995-06-18'']"
proof -
  let ?one = "get_json_for_date demo_env empty_state None (FBool False) (FBool False)"
  let ?rnd = "get_json_for_random_dates demo_env empty_state 2 (FBool False) (FBool False)"
  let ?rng = "get_json_for_date_range demo_env empty_state ''1995-06-16'' None (FBool False)
     (FBool False)"
  note one = demo_single_absent and rnd = demo_random_2 and rng = demo_range_all
  note d = demo_record_date_18
  from one have one': "?one = (Inr (Jsonify (served ''1995-06-18'')), snd ?one)"
    by (metis prod.collapse)
  from rnd have rnd': "?rnd = (Inr [served ''1995-06-18'', served ''1995-06-17''], snd ?rnd)"
    by (metis prod.collapse)
  from rng have rng': "?rng
      = (Inr [served ''1995-06-16'', served ''1995-06-17'', served ''1995-06-18''], snd ?rng)"
    by (metis prod.collapse)
  from service_version_on_every_record [of demo_env empty_state None "FBool False" "FBool False"
      "served ''1995-06-18''" "snd ?one" 2 "[served ''1995-06-18'', served ''1995-06-17'']"
      "snd ?rnd" "''1995-06-16''" None
      "[served ''1995-06-16'', served ''1995-06-17'', served ''1995-06-18'']" "snd ?rng"]
    one' rnd' rng' d one rnd rng
  show ?thesis by simp
qed

section \<open>The empty date string (C10)\<close>

text \<open>
  C10. \<^verbatim>\<open>_get_json_for_date\<close> takes an empty date string down the same branch as an
  absent date: no parsing, today's page is asked for (the default-today flag is set) and
  the cache is read under today's key. The parse error of the input date can therefore
  only come from a date string that is not empty and that \<^verbatim>\<open>strptime\<close> refuses.
\<close>

theorem empty_date_defaults_to_today:
  "resolve_input_date e (Some []) c t = Inr (DtEmpty, True, make_key (today_utc e) c t) \<and>
   resolve_input_date e None c t = Inr (DtNone, True, make_key (today_utc e) c t) \<and>
   (resolve_input_date e input_date c t = Inl (StrptimeError s) \<longrightarrow>
      input_date = Some s \<and> s \<noteq> [] \<and> strptime s = None)"
  by (auto simp: resolve_input_date_def validate_date_def Let_def
           split: option.splits sum.splits if_splits)

theorem empty_date_defaults_to_today_witness:
  "resolve_input_date demo_env (Some []) (FBool False) (FBool False)
     = Inr (DtEmpty, True, ''1995y6m18dFalseFalse'') \<and>
   resolve_input_date demo_env None (FBool False) (FBool False)
     = Inr (DtNone, True, ''1995y6m18dFalseFalse'') \<and>
   resolve_input_date demo_env (Some ''18 June'') (FBool False) (FBool False)
     = Inl (StrptimeError ''18 June'') \<and>
   ''18 June'' \<noteq> [] \<and> strptime ''18 June'' = None"
proof -
  have key: "make_key (today_utc demo_env) (FBool False) (FBool False) = ''1995y6m18dFalseFalse''"
    by code_simp
  have bad: "resolve_input_date demo_env (Some ''18 June'') (FBool False) (FBool False)
     = Inl (StrptimeError ''18 June'')"
    by code_simp
  from empty_date_defaults_to_today
    [of demo_env "FBool False" "FBool False" "Some ''18 June''" "''18 June''"] bad key
  show ?thesis by simp
qed

end
